theory Spec2Isabelle
  imports Complex_Main "HOL-Library.Sublist" "HOL-Library.Char_ord" "HOL-Library.List_Lexorder"
    "HOL-Library.Multiset"
begin

section \<open>Python values and strings\<close>

text \<open>
  The extractor of \<^verbatim>\<open>src/ketryx_data_extractor.py\<close> works on decoded JSON. A field value,
  a record attribute, a label and a type hint are JSON scalars: \<^verbatim>\<open>None\<close>, a boolean, an
  integer or a string. Fractional numbers (binary floating point) and arrays or objects in
  the place of a scalar are outside the model. A Python string is a \<^typ>\<open>string\<close>, every
  \<^typ>\<open>char\<close> standing for the code point of the same number (0 to 255), so that
  \<^const>\<open>length\<close> counts what Python's \<^verbatim>\<open>len\<close> counts and the order of
  \<^typ>\<open>string\<close> is Python's order on \<^verbatim>\<open>str\<close>.
\<close>

datatype pyval = PNone | PBool bool | PInt int | PStr string

datatype py_error = AttributeError | TypeError

text \<open>Truth value testing, as \<^verbatim>\<open>if x:\<close> does it.\<close>

fun truthy :: "pyval \<Rightarrow> bool" where
  "truthy PNone = False"
| "truthy (PBool b) = b"
| "truthy (PInt i) = (i \<noteq> 0)"
| "truthy (PStr s) = (s \<noteq> [])"

text \<open>\<^verbatim>\<open>a == b\<close> on scalars: a boolean is the integer 0 or 1.\<close>

fun py_eq :: "pyval \<Rightarrow> pyval \<Rightarrow> bool" where
  "py_eq (PBool a) (PInt j) = ((if a then 1 else 0) = j)"
| "py_eq (PInt i) (PBool b) = (i = (if b then 1 else 0))"
| "py_eq a b = (a = b)"

text \<open>\<^verbatim>\<open>str(n)\<close> for an integer: decimal digits, with a sign when negative.\<close>

definition digit_char :: "nat \<Rightarrow> char" where
  "digit_char d = char_of (48 + d)"

fun str_of_nat :: "nat \<Rightarrow> string" where
  "str_of_nat n = (if n < 10 then [digit_char n] else str_of_nat (n div 10) @ [digit_char (n mod 10)])"

definition str_of_int :: "int \<Rightarrow> string" where
  "str_of_int i = (if i < 0 then CHR ''-'' # str_of_nat (nat (- i)) else str_of_nat (nat i))"

fun py_str :: "pyval \<Rightarrow> string" where
  "py_str PNone = ''None''"
| "py_str (PBool b) = (if b then ''True'' else ''False'')"
| "py_str (PInt i) = str_of_int i"
| "py_str (PStr s) = s"

text \<open>\<^verbatim>\<open>s.replace(a, b)\<close> for one-character \<^verbatim>\<open>a\<close> and \<^verbatim>\<open>b\<close>.\<close>

definition str_replace :: "char \<Rightarrow> char \<Rightarrow> string \<Rightarrow> string" where
  "str_replace a b s = map (\<lambda>c. if c = a then b else c) s"

text \<open>
  \<^verbatim>\<open>s.lower()\<close>: below code point 256 the upper-case letters are A to Z, and
  U+00C0 to U+00DE without the multiplication sign U+00D7; each has its lower-case
  partner 32 places further on.
\<close>

definition lower_char :: "char \<Rightarrow> char" where
  "lower_char c =
     (let n = (of_char c :: nat)
      in if (65 \<le> n \<and> n \<le> 90) \<or> (192 \<le> n \<and> n \<le> 214) \<or> (216 \<le> n \<and> n \<le> 222)
         then char_of (n + 32) else c)"

definition py_lower :: "string \<Rightarrow> string" where
  "py_lower s = map lower_char s"

text \<open>
  \<^verbatim>\<open>s.isalpha()\<close>: the string is not empty and every character is a letter. Below
  code point 256 the letters are A to Z, a to z, U+00AA, U+00B5, U+00BA, and U+00C0 to
  U+00FF without U+00D7 and U+00F7.
\<close>

definition alpha_char :: "char \<Rightarrow> bool" where
  "alpha_char c =
     (let n = (of_char c :: nat)
      in (65 \<le> n \<and> n \<le> 90) \<or> (97 \<le> n \<and> n \<le> 122) \<or> n = 170 \<or> n = 181 \<or> n = 186
         \<or> (192 \<le> n \<and> n \<le> 214) \<or> (216 \<le> n \<and> n \<le> 246) \<or> (248 \<le> n \<and> n \<le> 255))"

definition isalpha :: "string \<Rightarrow> bool" where
  "isalpha s = (s \<noteq> [] \<and> list_all alpha_char s)"

text \<open>\<^verbatim>\<open>p in s\<close> on strings: \<^verbatim>\<open>p\<close> occurs in \<^verbatim>\<open>s\<close> as a contiguous block.\<close>

fun py_in_str :: "string \<Rightarrow> string \<Rightarrow> bool" where
  "py_in_str p [] = (p = [])"
| "py_in_str p (c # cs) = (prefix p (c # cs) \<or> py_in_str p cs)"

text \<open>
  \<^verbatim>\<open>sorted(xs)\<close> on a list of strings. The order on strings is total, so the
  ascending rearrangement is unique and the library's sort computes it.
\<close>

definition py_sorted :: "string list \<Rightarrow> string list" where
  "py_sorted xs = sort xs"

text \<open>
  \<^verbatim>\<open>list(dict.fromkeys(xs))\<close>: the keys are inserted one after the other; a key
  already there keeps its place.
\<close>

definition dict_fromkeys :: "'a list \<Rightarrow> 'a list" where
  "dict_fromkeys xs = foldl (\<lambda>d k. if k \<in> set d then d else d @ [k]) [] xs"

text \<open>
  A decoded JSON object with scalar members is an association list with distinct keys;
  \<^verbatim>\<open>d.get(k, default)\<close> reads it.
\<close>

definition get_or :: "(string \<times> pyval) list \<Rightarrow> string \<Rightarrow> pyval \<Rightarrow> pyval" where
  "get_or d k dflt = (case map_of d k of None \<Rightarrow> dflt | Some v \<Rightarrow> v)"

text \<open>\<^verbatim>\<open>d[k] = v\<close> on an insertion-ordered dictionary.\<close>

definition dict_set :: "('k \<times> 'v) list \<Rightarrow> 'k \<Rightarrow> 'v \<Rightarrow> ('k \<times> 'v) list" where
  "dict_set d k v =
     (if k \<in> fst ` set d then map (\<lambda>(k', v'). if k' = k then (k', v) else (k', v')) d
      else d @ [(k, v)])"

section \<open>Configuration\<close>

definition MAX_SAMPLE_VALUES :: nat where "MAX_SAMPLE_VALUES = 5"
definition MAX_UNIQUE_VALUES :: nat where "MAX_UNIQUE_VALUES = 25"
definition MAX_SAMPLE_RECORDS :: nat where "MAX_SAMPLE_RECORDS = 3"
definition MAX_STRING_LENGTH :: nat where "MAX_STRING_LENGTH = 100"

text \<open>The pattern set is only ever searched for some member that matches, so a list stands for it.\<close>

definition RICH_TEXT_FIELD_PATTERNS :: "string list" where
  "RICH_TEXT_FIELD_PATTERNS =
     [''description'', ''rationale'', ''notes'', ''content'', ''details'', ''summary'',
      ''comment'', ''justification'', ''analysis'', ''resolution'', ''root_cause'',
      ''impact'', ''mitigation'', ''verification'', ''acceptance_criteria'']"

section \<open>Field helpers of \<^verbatim>\<open>KetryxDataExtractor\<close>\<close>

definition normalize_field_name :: "string \<Rightarrow> string" where
  "normalize_field_name name = str_replace CHR '' '' CHR ''_'' name"

definition html_indicators :: "string list" where
  "html_indicators =
     [''<p>'', ''<ul>'', ''<ol>'', ''<li>'', ''<strong>'', ''<em>'', ''<br'', ''<div>'', ''<span>'']"

text \<open>One turn of the loop over \<^verbatim>\<open>values[:10]\<close>: does this value make the field rich text?\<close>

fun rich_value :: "pyval \<Rightarrow> bool" where
  "rich_value (PStr s) = (list_ex (\<lambda>tag. py_in_str tag s) html_indicators \<or> length s > 500)"
| "rich_value _ = False"

definition is_rich_text_field :: "string \<Rightarrow> pyval list \<Rightarrow> bool" where
  "is_rich_text_field field_name vs =
     (let lower_name = str_replace CHR ''_'' CHR '' '' (py_lower field_name)
      in if list_ex (\<lambda>pattern. py_in_str pattern lower_name) RICH_TEXT_FIELD_PATTERNS then True
         else list_ex rich_value (take 10 vs))"

definition compute_access_paths :: "string \<Rightarrow> bool \<Rightarrow> string \<Rightarrow> (string \<times> string) list" where
  "compute_access_paths field_name is_custom data_type =
     (let normalized = normalize_field_name field_name
      in if is_custom then
           (if data_type = ''richText''
            then [(''plain'', ''fieldValue.'' @ normalized), (''rich'', ''~~fieldContent.'' @ normalized)]
            else [(''plain'', ''fieldValue.'' @ normalized)])
         else
           (if data_type = ''richText''
            then [(''plain'', field_name), (''rich'', ''~~'' @ field_name)]
            else [(''plain'', field_name)]))"

fun truncate_value :: "pyval \<Rightarrow> string" where
  "truncate_value (PStr s) = take MAX_STRING_LENGTH s"
| "truncate_value v = py_str v"

definition compute_value_samples :: "pyval list \<Rightarrow> string \<Rightarrow> string list \<times> string list" where
  "compute_value_samples vs data_type =
     (if vs = [] then ([], [])
      else if data_type = ''richText'' then ([], [])
      else
        (let truncated = map truncate_value vs;
             unique = dict_fromkeys truncated
         in if length unique \<le> MAX_UNIQUE_VALUES then (py_sorted unique, [])
            else ([], take MAX_SAMPLE_VALUES unique)))"

section \<open>Records of the source and data classes\<close>

text \<open>
  A field entry of a record is a JSON object with scalar members (\<^verbatim>\<open>label\<close>,
  \<^verbatim>\<open>value\<close>, \<^verbatim>\<open>type\<close>) or something that is not an object, which the
  extractor recognises with \<^verbatim>\<open>isinstance(field_obj, dict)\<close>. A relation entry likewise;
  its \<^verbatim>\<open>type\<close>, when present, is a string. A record is a JSON object, with its scalar
  attributes (\<^verbatim>\<open>title\<close>, \<^verbatim>\<open>revision\<close>, ...), its \<^verbatim>\<open>fields\<close> array and its
  \<^verbatim>\<open>relations\<close> array (an absent array is the empty one, as
  \<^verbatim>\<open>record.get("fields", [])\<close> reads it), or something that is not an object.
\<close>

datatype field_obj = NotADict | FieldObj "(string \<times> pyval) list"

datatype relation = NotARelation | Relation "string option"

datatype raw_record =
  NotARecord
| RawRecord "(string \<times> pyval) list" "field_obj list" "relation list"

text \<open>
  \<^verbatim>\<open>FieldInfo\<close>. The fill rate is a Python float, kept as the exact value of the float.
\<close>

record field_info =
  name :: string
  normalizedName :: string
  label :: string
  dataType :: string
  isCustomField :: bool
  access :: "(string \<times> string) list"
  description :: string
  uniqueValues :: "string list"
  exampleValues :: "string list"
  fillRate :: rat

text \<open>
  \<^verbatim>\<open>RelationTypeInfo\<close> and \<^verbatim>\<open>ItemTypeInfo\<close>. The fields \<^verbatim>\<open>count\<close>,
  \<^verbatim>\<open>name\<close> and \<^verbatim>\<open>fields\<close> carry the class in their names here.
\<close>

record relation_type_info =
  relationType :: string
  fromTypes :: "string list"
  toTypes :: "string list"
  rel_count :: nat
  accessPattern :: string

record item_type_info =
  type_name :: string
  kqlQuery :: string
  shortName :: string
  item_count :: int
  statuses :: "pyval list"
  type_fields :: "(string \<times> field_info) list"
  sampleRecords :: "(string \<times> string) list list"
  outgoingRelations :: "(string \<times> string) list list"
  incomingRelations :: "(string \<times> string) list list"

text \<open>What \<^verbatim>\<open>to_dict\<close> builds: JSON with scalar leaves.\<close>

datatype json = Scalar pyval | Array "json list" | Object "(string \<times> json) list"

definition json_str :: "string \<Rightarrow> json" where
  "json_str s = Scalar (PStr s)"

definition json_str_dict :: "(string \<times> string) list \<Rightarrow> json" where
  "json_str_dict d = Object (map (\<lambda>(k, s). (k, json_str s)) d)"

text \<open>
  Python floats. A float is an IEEE 754 double: a number with 53 significant bits; the
  model keeps its exact value as a rational number. The result of a division or a
  multiplication is the exact result rounded to the nearest double, to the one with the even
  last bit of two equally near. The rates computed here are quotients of two list
  lengths and their products with 100, far from the largest and the smallest doubles, so
  neither overflow nor subnormal numbers arise.
\<close>

definition round_half_even :: "rat \<Rightarrow> int" where
  "round_half_even x =
     (let f = \<lfloor>x\<rfloor>; d = x - of_int f
      in if d < 1 / 2 then f else if 1 / 2 < d then f + 1 else if even f then f else f + 1)"

text \<open>The number of binary digits of a positive integer.\<close>

function bit_length :: "int \<Rightarrow> int" where
  "bit_length n = (if n \<le> 0 then 0 else 1 + bit_length (n div 2))"
  by pat_completeness auto
termination
  by (relation "measure nat") auto

definition pow2 :: "int \<Rightarrow> rat" where
  "pow2 e = (if 0 \<le> e then 2 ^ nat e else 1 / 2 ^ nat (- e))"

text \<open>For a positive \<open>x\<close>, the exponent \<open>e\<close> with \<open>2\<^sup>e \<le> x < 2\<^sup>e\<^sup>+\<^sup>1\<close>.\<close>

definition binary_exponent :: "rat \<Rightarrow> int" where
  "binary_exponent x =
     (let d = bit_length (fst (quotient_of x)) - bit_length (snd (quotient_of x))
      in if pow2 d \<le> x then d else d - 1)"

definition round_to_double :: "rat \<Rightarrow> rat" where
  "round_to_double x =
     (if x = 0 then 0
      else (let ulp = pow2 (binary_exponent \<bar>x\<bar> - 52)
            in sgn x * of_int (round_half_even (\<bar>x\<bar> / ulp)) * ulp))"

text \<open>
  \<^verbatim>\<open>f"{x:.0f}"\<close> for a float \<^verbatim>\<open>x\<close> that is not negative: the decimal digits of the
  integer nearest to the exact value of \<^verbatim>\<open>x\<close>, the even one of two equally near.
\<close>

definition format_0f :: "rat \<Rightarrow> string" where
  "format_0f x = str_of_int (round_half_even x)"

definition FieldInfo_to_dict :: "field_info \<Rightarrow> (string \<times> json) list" where
  "FieldInfo_to_dict f =
     [(''label'', json_str (label f)),
      (''dataType'', json_str (dataType f)),
      (''access'', json_str_dict (access f))]
     @ (if isCustomField f then [(''isCustomField'', Scalar (PBool True))] else [])
     @ (if uniqueValues f \<noteq> [] then [(''uniqueValues'', Array (map json_str (uniqueValues f)))]
        else if exampleValues f \<noteq> [] then [(''exampleValues'', Array (map json_str (exampleValues f)))]
        else [])
     @ (if fillRate f < 100 then [(''fillRate'', json_str (format_0f (fillRate f) @ ''%''))] else [])"

definition ItemTypeInfo_to_dict :: "item_type_info \<Rightarrow> (string \<times> json) list" where
  "ItemTypeInfo_to_dict t =
     [(''kqlQuery'', json_str (kqlQuery t)),
      (''count'', Scalar (PInt (item_count t))),
      (''fields'', Object (map (\<lambda>(k, info). (k, Object (FieldInfo_to_dict info))) (type_fields t))),
      (''sampleRecords'', Array (map json_str_dict (sampleRecords t)))]
     @ (if shortName t \<noteq> [] then [(''shortName'', json_str (shortName t))] else [])
     @ (if statuses t \<noteq> [] then [(''statuses'', Array (map Scalar (statuses t)))] else [])
     @ (if outgoingRelations t \<noteq> []
        then [(''outgoingRelations'', Array (map json_str_dict (outgoingRelations t)))] else [])
     @ (if incomingRelations t \<noteq> []
        then [(''incomingRelations'', Array (map json_str_dict (incomingRelations t)))] else [])"

section \<open>Field analysis: \<^verbatim>\<open>_analyze_all_fields\<close>\<close>

text \<open>
  An entry of \<^verbatim>\<open>field_data\<close>: the dictionary with the keys \<^verbatim>\<open>values\<close>,
  \<^verbatim>\<open>types\<close>, \<^verbatim>\<open>isCustom\<close> and \<^verbatim>\<open>label\<close>. The set of type hints is only asked
  whether it holds one of four strings.
\<close>

record field_obs =
  obs_values :: "pyval list"
  obs_types :: "pyval set"
  obs_isCustom :: bool
  obs_label :: string

definition default_obs :: field_obs where
  "default_obs = \<lparr>obs_values = [], obs_types = {}, obs_isCustom = True, obs_label = []\<rparr>"

text \<open>
  \<^verbatim>\<open>field_data\<close> is a \<^verbatim>\<open>defaultdict\<close>: reading a key that is not there inserts the
  default entry at the end. \<^verbatim>\<open>defaultdict_modify dflt k f\<close> is the read \<^verbatim>\<open>d[k]\<close>
  followed by the updates \<^verbatim>\<open>f\<close> of the entry.
\<close>

definition defaultdict_modify :: "'v \<Rightarrow> 'k \<Rightarrow> ('v \<Rightarrow> 'v) \<Rightarrow> ('k \<times> 'v) list \<Rightarrow> ('k \<times> 'v) list" where
  "defaultdict_modify dflt k f d =
     (if k \<in> fst ` set d then map (\<lambda>(k', v). if k' = k then (k', f v) else (k', v)) d
      else d @ [(k, f dflt)])"

definition standard_fields :: "string list" where
  "standard_fields = [''title'', ''revision'', ''isControlled'', ''createdAt'']"

text \<open>The presence test of the analysis: \<^verbatim>\<open>value is not None and value != ""\<close>.\<close>

definition present :: "pyval \<Rightarrow> bool" where
  "present v = (v \<noteq> PNone \<and> v \<noteq> PStr [])"

definition observe_standard :: "(string \<times> pyval) list \<Rightarrow> string
    \<Rightarrow> (string \<times> field_obs) list \<Rightarrow> (string \<times> field_obs) list" where
  "observe_standard attrs field_name fd =
     (let v = get_or attrs field_name PNone
      in if present v
         then defaultdict_modify default_obs field_name
                (\<lambda>d. d\<lparr>obs_values := obs_values d @ [v], obs_isCustom := False,
                       obs_label := field_name\<rparr>) fd
         else fd)"

text \<open>
  One entry of the \<^verbatim>\<open>fields\<close> array. \<^verbatim>\<open>_normalize_field_name(label)\<close> calls
  \<^verbatim>\<open>label.replace\<close>, which only a string has: a label that is true but no string raises
  \<^verbatim>\<open>AttributeError\<close>.
\<close>

definition observe_custom :: "field_obj \<Rightarrow> (string \<times> field_obs) list
    \<Rightarrow> py_error + (string \<times> field_obs) list" where
  "observe_custom field_obj fd =
     (case field_obj of
        NotADict \<Rightarrow> Inr fd
      | FieldObj d \<Rightarrow>
          (let lbl = get_or d ''label'' (PStr []);
               v = get_or d ''value'' PNone;
               field_type = get_or d ''type'' (PStr ''string'')
           in if truthy lbl \<and> present v
              then (case lbl of
                      PStr s \<Rightarrow>
                        Inr (defaultdict_modify default_obs (normalize_field_name s)
                               (\<lambda>d. d\<lparr>obs_values := obs_values d @ [v],
                                      obs_types := insert field_type (obs_types d),
                                      obs_isCustom := True, obs_label := s\<rparr>) fd)
                    | _ \<Rightarrow> Inl AttributeError)
              else Inr fd))"

text \<open>A loop whose body may raise: the first error ends it.\<close>

fun fold_err :: "('a \<Rightarrow> 's \<Rightarrow> 'e + 's) \<Rightarrow> 'a list \<Rightarrow> 's \<Rightarrow> 'e + 's" where
  "fold_err f [] s = Inr s"
| "fold_err f (x # xs) s = (case f x s of Inl e \<Rightarrow> Inl e | Inr s' \<Rightarrow> fold_err f xs s')"

definition observe_record :: "raw_record \<Rightarrow> (string \<times> field_obs) list
    \<Rightarrow> py_error + (string \<times> field_obs) list" where
  "observe_record r fd =
     (case r of
        NotARecord \<Rightarrow> Inr fd
      | RawRecord attrs fs rels \<Rightarrow>
          fold_err observe_custom fs (fold (observe_standard attrs) standard_fields fd))"

definition collect_field_data :: "raw_record list \<Rightarrow> py_error + (string \<times> field_obs) list" where
  "collect_field_data records = fold_err observe_record records []"

text \<open>The body of the loop that builds the \<^verbatim>\<open>FieldInfo\<close> objects.\<close>

definition resolve_data_type :: "string \<Rightarrow> pyval list \<Rightarrow> pyval set \<Rightarrow> string" where
  "resolve_data_type field_key vs types =
     (if is_rich_text_field field_key vs then ''richText''
      else if PStr ''number'' \<in> types then ''number''
      else if PStr ''date'' \<in> types \<or> PStr ''datetime'' \<in> types then ''datetime''
      else if PStr ''boolean'' \<in> types then ''boolean''
      else ''string'')"

text \<open>
  \<^verbatim>\<open>(len(values) / len(records) * 100) if records else 0\<close>: the quotient of the two
  integers is rounded to a float, and so is its product with 100.
\<close>

definition fill_rate :: "nat \<Rightarrow> nat \<Rightarrow> rat" where
  "fill_rate n_values n_records =
     (if n_records \<noteq> 0
      then round_to_double (round_to_double (of_nat n_values / of_nat n_records) * 100)
      else 0)"

definition build_field_info :: "nat \<Rightarrow> string \<Rightarrow> field_obs \<Rightarrow> field_info" where
  "build_field_info n_records field_key d =
     (let data_type = resolve_data_type field_key (obs_values d) (obs_types d);
          samples = compute_value_samples (obs_values d) data_type
      in \<lparr>name = field_key,
          normalizedName = normalize_field_name field_key,
          label = obs_label d,
          dataType = data_type,
          isCustomField = obs_isCustom d,
          access = compute_access_paths field_key (obs_isCustom d) data_type,
          description = [],
          uniqueValues = fst samples,
          exampleValues = snd samples,
          fillRate = fill_rate (length (obs_values d)) n_records\<rparr>)"

definition build_fields :: "nat \<Rightarrow> (string \<times> field_obs) list \<Rightarrow> (string \<times> field_info) list
    \<Rightarrow> (string \<times> field_info) list" where
  "build_fields n_records fd fields0 =
     fold (\<lambda>(field_key, d) fs.
             if obs_values d = [] then fs
             else dict_set fs field_key (build_field_info n_records field_key d))
          fd fields0"

text \<open>
  The statuses. This loop calls \<^verbatim>\<open>record.get\<close> on every record, without the
  \<^verbatim>\<open>isinstance\<close> test of the other loops.
\<close>

definition observe_status :: "field_obj \<Rightarrow> pyval list \<Rightarrow> pyval list" where
  "observe_status field_obj sts =
     (case field_obj of
        NotADict \<Rightarrow> sts
      | FieldObj d \<Rightarrow>
          if py_eq (get_or d ''label'' PNone) (PStr ''Status'')
          then (let status = get_or d ''value'' PNone
                in if truthy status \<and> \<not> list_ex (py_eq status) sts then sts @ [status] else sts)
          else sts)"

definition status_record :: "raw_record \<Rightarrow> pyval list \<Rightarrow> py_error + pyval list" where
  "status_record r sts =
     (case r of
        NotARecord \<Rightarrow> Inl AttributeError
      | RawRecord attrs fs rels \<Rightarrow> Inr (fold observe_status fs sts))"

text \<open>
  \<^verbatim>\<open>sorted(type_info.statuses)\<close> on scalars. Strings are ordered among themselves and
  so are numbers (a boolean is 0 or 1); comparing a string with a number, or anything with
  \<^verbatim>\<open>None\<close>, raises \<^verbatim>\<open>TypeError\<close>, and a sort of two or more values compares every
  value with some other one. The sort is stable.
\<close>

fun is_str :: "pyval \<Rightarrow> bool" where
  "is_str (PStr s) = True"
| "is_str _ = False"

fun is_num :: "pyval \<Rightarrow> bool" where
  "is_num (PBool b) = True"
| "is_num (PInt i) = True"
| "is_num _ = False"

fun num_val :: "pyval \<Rightarrow> int" where
  "num_val (PBool b) = (if b then 1 else 0)"
| "num_val (PInt i) = i"
| "num_val _ = 0"

definition sorted_values :: "pyval list \<Rightarrow> py_error + pyval list" where
  "sorted_values xs =
     (if length xs \<le> 1 then Inr xs
      else if list_all is_str xs then Inr (sort_key py_str xs)
      else if list_all is_num xs then Inr (sort_key num_val xs)
      else Inl TypeError)"

text \<open>Sample records. Both calls of \<^verbatim>\<open>_truncate\<close> pass a length above 3.\<close>

definition truncate :: "string \<Rightarrow> nat \<Rightarrow> string" where
  "truncate text max_len =
     (if length text \<le> max_len then text else take (max_len - 3) text @ ''...'')"

fun sample_fields :: "(string \<times> field_info) list \<Rightarrow> field_obj list \<Rightarrow> nat
    \<Rightarrow> (string \<times> string) list \<Rightarrow> py_error + (string \<times> string) list" where
  "sample_fields fs [] custom_count sample = Inr sample"
| "sample_fields fs (field_obj # rest) custom_count sample =
     (if custom_count \<ge> 4 then Inr sample
      else case field_obj of
          NotADict \<Rightarrow> sample_fields fs rest custom_count sample
        | FieldObj d \<Rightarrow>
            (case get_or d ''label'' (PStr []) of
               PStr lbl \<Rightarrow>
                 (let v = get_or d ''value'' PNone;
                      normalized = normalize_field_name lbl
                  in if (case map_of fs normalized of
                           Some info \<Rightarrow> dataType info = ''richText'' | None \<Rightarrow> False)
                     then sample_fields fs rest custom_count sample
                     else if lbl \<noteq> [] \<and> truthy v \<and> v \<noteq> PStr []
                     then sample_fields fs rest (custom_count + 1)
                            (dict_set sample normalized (truncate (py_str v) 60))
                     else sample_fields fs rest custom_count sample)
             | _ \<Rightarrow> Inl AttributeError))"

definition sample_record :: "(string \<times> field_info) list \<Rightarrow> raw_record
    \<Rightarrow> (string \<times> string) list list \<Rightarrow> py_error + (string \<times> string) list list" where
  "sample_record fs r samples =
     (case r of
        NotARecord \<Rightarrow> Inr samples
      | RawRecord attrs fobjs rels \<Rightarrow>
          (let title = get_or attrs ''title'' PNone;
               sample0 = (if truthy title then [(''title'', truncate (py_str title) 80)] else [])
           in case sample_fields fs fobjs 0 sample0 of
                Inl e \<Rightarrow> Inl e
              | Inr sample \<Rightarrow> Inr (if sample \<noteq> [] then samples @ [sample] else samples)))"

definition build_sample_records :: "raw_record list \<Rightarrow> (string \<times> field_info) list
    \<Rightarrow> py_error + (string \<times> string) list list" where
  "build_sample_records records fs = fold_err (sample_record fs) (take MAX_SAMPLE_RECORDS records) []"

text \<open>The body of the loop of \<^verbatim>\<open>_analyze_all_fields\<close> for one type with records.\<close>

definition analyze_type :: "raw_record list \<Rightarrow> item_type_info \<Rightarrow> py_error + item_type_info" where
  "analyze_type records type_info =
     (case collect_field_data records of
        Inl e \<Rightarrow> Inl e
      | Inr fd \<Rightarrow>
          (let fs = build_fields (length records) fd (type_fields type_info)
           in case fold_err status_record records (statuses type_info) of
                Inl e \<Rightarrow> Inl e
              | Inr sts \<Rightarrow>
                  (case sorted_values sts of
                     Inl e \<Rightarrow> Inl e
                   | Inr sorted_sts \<Rightarrow>
                       (case build_sample_records records fs of
                          Inl e \<Rightarrow> Inl e
                        | Inr samples \<Rightarrow>
                            Inr (type_info\<lparr>type_fields := fs, statuses := sorted_sts,
                                            sampleRecords := samples\<rparr>)))))"

text \<open>
  What \<^verbatim>\<open>_discover_types_from_items\<close> creates for a type name; a name with a space
  is put between double quotes (code point 0x22) in the query.
\<close>

definition new_item_type :: "string \<Rightarrow> item_type_info" where
  "new_item_type tn =
     \<lparr>type_name = tn,
      kqlQuery = (if CHR '' '' \<in> set tn then ''type:'' @ [CHR 0x22] @ tn @ [CHR 0x22]
                  else ''type:'' @ tn),
      shortName = [], item_count = 0, statuses = [], type_fields = [], sampleRecords = [],
      outgoingRelations = [], incomingRelations = []\<rparr>"

section \<open>Fetching the records of every type: \<^verbatim>\<open>_fetch_records_by_type\<close>\<close>

text \<open>
  The answer of \<^verbatim>\<open>query_records\<close> is \<^verbatim>\<open>None\<close> after a failed call, or an object with
  the \<^verbatim>\<open>records\<close> array and, possibly, an integer \<^verbatim>\<open>total\<close>. The client is a
  function of the query. The state of the extractor is its three dictionaries.
\<close>

datatype response = Response "raw_record list" "int option"

record extractor =
  item_types :: "(string \<times> item_type_info) list"
  relation_types :: "(string \<times> relation_type_info) list"
  all_records_by_type :: "(string \<times> raw_record list) list"

text \<open>\<^verbatim>\<open>del d[k]\<close> for a key that is there.\<close>

definition dict_del :: "('k \<times> 'v) list \<Rightarrow> 'k \<Rightarrow> ('k \<times> 'v) list" where
  "dict_del d k = filter (\<lambda>(k', v). k' \<noteq> k) d"

text \<open>\<^verbatim>\<open>s.split(sep)[0]\<close> for a one-character separator.\<close>

definition split_first :: "char \<Rightarrow> string \<Rightarrow> string" where
  "split_first sep s = takeWhile (\<lambda>c. c \<noteq> sep) s"

text \<open>
  The inner loop over the field entries of one record; the result is
  \<^verbatim>\<open>type_info.shortName\<close> when the loop is left.
\<close>

fun scan_id_fields :: "field_obj list \<Rightarrow> string \<Rightarrow> string" where
  "scan_id_fields [] short = short"
| "scan_id_fields (field_obj # rest) short =
     (case field_obj of
        NotADict \<Rightarrow> scan_id_fields rest short
      | FieldObj d \<Rightarrow>
          if py_eq (get_or d ''label'' PNone) (PStr ''ID'')
          then (let doc_id = get_or d ''value'' (PStr [])
                in if truthy doc_id \<and> py_in_str ''-'' (py_str doc_id)
                   then (let pre = split_first CHR ''-'' (py_str doc_id)
                         in if isalpha pre \<and> 1 \<le> length pre \<and> length pre \<le> 6 then pre
                            else scan_id_fields rest short)
                   else scan_id_fields rest short)
          else scan_id_fields rest short)"

text \<open>The outer loop over \<^verbatim>\<open>records[:20]\<close>, left as soon as the short name is not empty.\<close>

fun infer_short_name :: "raw_record list \<Rightarrow> string \<Rightarrow> string" where
  "infer_short_name [] short = short"
| "infer_short_name (r # rs) short =
     (let short' = (case r of
                      NotARecord \<Rightarrow> short
                    | RawRecord attrs fs rels \<Rightarrow> scan_id_fields fs short)
      in if short' \<noteq> [] then short' else infer_short_name rs short')"

text \<open>
  One turn of the loop over \<^verbatim>\<open>self.item_types.items()\<close>; the second component of the
  state is \<^verbatim>\<open>types_to_remove\<close>.
\<close>

definition fetch_type :: "(string \<Rightarrow> response option) \<Rightarrow> string \<times> item_type_info
    \<Rightarrow> extractor \<times> string list \<Rightarrow> extractor \<times> string list" where
  "fetch_type client entry state =
     (case (entry, state) of
        ((tn, type_info), (st, types_to_remove)) \<Rightarrow>
          (case client (kqlQuery type_info) of
             None \<Rightarrow> (st, types_to_remove @ [tn])
           | Some (Response records total_opt) \<Rightarrow>
               if records \<noteq> []
               then (let total = (case total_opt of None \<Rightarrow> int (length records) | Some t \<Rightarrow> t);
                         type_info' = type_info
                           \<lparr>item_count := total,
                            shortName := infer_short_name (take 20 records) (shortName type_info)\<rparr>
                     in (st\<lparr>all_records_by_type := dict_set (all_records_by_type st) tn records,
                            item_types := dict_set (item_types st) tn type_info'\<rparr>,
                         types_to_remove))
               else (st, types_to_remove @ [tn])))"

definition fetch_records_by_type :: "(string \<Rightarrow> response option) \<Rightarrow> extractor \<Rightarrow> extractor" where
  "fetch_records_by_type client st =
     (case fold (fetch_type client) (item_types st) (st, []) of
        (st', types_to_remove) \<Rightarrow>
          st'\<lparr>item_types := fold (\<lambda>tn d. dict_del d tn) types_to_remove (item_types st')\<rparr>)"

section \<open>The loop of \<^verbatim>\<open>_analyze_all_fields\<close> over the types\<close>

definition analyze_entry :: "string \<times> raw_record list \<Rightarrow> extractor \<Rightarrow> py_error + extractor" where
  "analyze_entry entry st =
     (case entry of
        (tn, records) \<Rightarrow>
          if records = [] then Inr st
          else (case map_of (item_types st) tn of
                  None \<Rightarrow> Inr st
                | Some type_info \<Rightarrow>
                    (case analyze_type records type_info of
                       Inl e \<Rightarrow> Inl e
                     | Inr type_info' \<Rightarrow>
                         Inr (st\<lparr>item_types := dict_set (item_types st) tn type_info'\<rparr>))))"

definition analyze_all_fields :: "extractor \<Rightarrow> py_error + extractor" where
  "analyze_all_fields st = fold_err analyze_entry (all_records_by_type st) st"

section \<open>Relations: \<^verbatim>\<open>_analyze_relations\<close>\<close>

text \<open>An entry of \<^verbatim>\<open>relation_data\<close>, another \<^verbatim>\<open>defaultdict\<close>.\<close>

record relation_obs =
  obs_fromTypes :: "string list"
  obs_toTypes :: "string list"
  obs_count :: nat

definition default_relation_obs :: relation_obs where
  "default_relation_obs = \<lparr>obs_fromTypes = [], obs_toTypes = [], obs_count = 0\<rparr>"

definition observe_relation :: "string \<Rightarrow> relation \<Rightarrow> (string \<times> relation_obs) list
    \<Rightarrow> (string \<times> relation_obs) list" where
  "observe_relation tn rel relation_data =
     (case rel of
        NotARelation \<Rightarrow> relation_data
      | Relation type_opt \<Rightarrow>
          (let rel_type = (case type_opt of None \<Rightarrow> ''UNKNOWN'' | Some t \<Rightarrow> t)
           in defaultdict_modify default_relation_obs rel_type
                (\<lambda>d. d\<lparr>obs_fromTypes := obs_fromTypes d @ [tn], obs_count := obs_count d + 1\<rparr>)
                relation_data))"

definition observe_relations_of_record :: "string \<Rightarrow> raw_record \<Rightarrow> (string \<times> relation_obs) list
    \<Rightarrow> (string \<times> relation_obs) list" where
  "observe_relations_of_record tn r relation_data =
     (case r of
        NotARecord \<Rightarrow> relation_data
      | RawRecord attrs fs rels \<Rightarrow> fold (observe_relation tn) rels relation_data)"

definition collect_relation_data :: "(string \<times> raw_record list) list \<Rightarrow> (string \<times> relation_obs) list" where
  "collect_relation_data by_type =
     fold (\<lambda>(tn, records) relation_data. fold (observe_relations_of_record tn) records relation_data)
       by_type []"

definition access_pattern_of :: "string \<Rightarrow> string" where
  "access_pattern_of rel_type = ''relations | where('' @ [CHR 0x27] @ ''type'' @ [CHR 0x27] @ '', ''
     @ [CHR 0x27] @ rel_type @ [CHR 0x27] @ '')''"

definition relation_info_of :: "string \<Rightarrow> relation_obs \<Rightarrow> relation_type_info" where
  "relation_info_of rel_type d =
     \<lparr>relationType = rel_type, fromTypes = obs_fromTypes d, toTypes = obs_toTypes d,
      rel_count = obs_count d, accessPattern = access_pattern_of rel_type\<rparr>"

definition outgoing_of :: "(string \<times> relation_type_info) list \<Rightarrow> string \<Rightarrow> (string \<times> string) list list" where
  "outgoing_of rts tn =
     map (\<lambda>(rel_type, rel_info). [(''relation'', rel_type), (''accessPattern'', access_pattern_of rel_type)])
       (filter (\<lambda>(rel_type, rel_info). tn \<in> set (fromTypes rel_info)) rts)"

definition analyze_relations :: "extractor \<Rightarrow> extractor" where
  "analyze_relations st =
     (let relation_data = collect_relation_data (all_records_by_type st);
          rts = fold (\<lambda>(rel_type, d) rts. dict_set rts rel_type (relation_info_of rel_type d))
                  relation_data (relation_types st)
      in st\<lparr>relation_types := rts,
            item_types := map (\<lambda>(tn, type_info). (tn, type_info\<lparr>outgoingRelations := outgoing_of rts tn\<rparr>))
                            (item_types st)\<rparr>)"

section \<open>The output: \<^verbatim>\<open>_build_output\<close>\<close>

text \<open>
  \<^verbatim>\<open>sorted(xs, key=k, reverse=True)\<close>: the list is reversed, sorted by a stable sort
  and reversed again, so that members with equal keys keep their order.
\<close>

definition sorted_reverse :: "('a \<Rightarrow> 'k::linorder) \<Rightarrow> 'a list \<Rightarrow> 'a list" where
  "sorted_reverse k xs = rev (sort_key k (rev xs))"

text \<open>
  \<^verbatim>\<open>RelationTypeInfo.to_dict\<close>. \<^verbatim>\<open>list(set(xs))\<close> has the members of \<^verbatim>\<open>xs\<close> in an
  order that Python does not fix, so the model keeps the set.
\<close>

record relation_dict =
  d_relationType :: string
  d_fromTypes :: "string set"
  d_toTypes :: "string set"
  d_count :: nat
  d_accessPattern :: string

definition RelationTypeInfo_to_dict :: "relation_type_info \<Rightarrow> relation_dict" where
  "RelationTypeInfo_to_dict r =
     \<lparr>d_relationType = relationType r, d_fromTypes = set (fromTypes r), d_toTypes = set (toTypes r),
      d_count = rel_count r, d_accessPattern = accessPattern r\<rparr>"

text \<open>
  The part of the output document that is computed from the records: the summary, the
  item types and the relation types. The metadata, the project and version blocks and the
  table of built-in variables do not depend on them.
\<close>

record output_document =
  totalItems :: int
  itemTypeCount :: nat
  totalRelations :: nat
  itemTypes :: "(string \<times> (string \<times> json) list) list"
  relationTypes :: "relation_dict list"

definition build_output :: "extractor \<Rightarrow> output_document" where
  "build_output st =
     (let sorted_types = sorted_reverse (\<lambda>x. item_count (snd x)) (item_types st);
          sorted_relations = sorted_reverse rel_count (map snd (relation_types st))
      in \<lparr>totalItems = sum_list (map (\<lambda>(tn, t). item_count t) (item_types st)),
          itemTypeCount = length (item_types st),
          totalRelations = sum_list (map (\<lambda>(rel_type, r). rel_count r) (relation_types st)),
          itemTypes = fold (\<lambda>(tn, info) d. dict_set d tn (ItemTypeInfo_to_dict info)) sorted_types [],
          relationTypes = map RelationTypeInfo_to_dict (take 20 sorted_relations)\<rparr>)"

text \<open>Steps 4 to 7 of \<^verbatim>\<open>extract\<close>, from the discovered types to the output.\<close>

definition extract_discovered :: "(string \<Rightarrow> response option) \<Rightarrow> extractor \<Rightarrow> py_error + output_document" where
  "extract_discovered client st =
     (case analyze_all_fields (fetch_records_by_type client st) of
        Inl e \<Rightarrow> Inl e
      | Inr st' \<Rightarrow> Inr (build_output (analyze_relations st')))"

section \<open>The value sampler as the specification words it\<close>

text \<open>
  Deduplication that keeps the first occurrence of every member, in the order of these
  first occurrences.
\<close>

fun dedup_first_seen :: "'a list \<Rightarrow> 'a list" where
  "dedup_first_seen [] = []"
| "dedup_first_seen (x # xs) = x # dedup_first_seen (filter (\<lambda>y. y \<noteq> x) xs)"

text \<open>A string is cut to its first 100 characters, anything else is written out as a string.\<close>

definition canonical_string :: "pyval \<Rightarrow> string" where
  "canonical_string v = (case v of PStr s \<Rightarrow> take 100 s | _ \<Rightarrow> py_str v)"

section \<open>The observations of a field as the specification words them\<close>

text \<open>
  What one record contributes to the field with key \<open>k\<close>: from its fixed attributes, the
  value of the attribute named \<open>k\<close> when it is present; from its field entries, in order,
  every present value whose label is a non-empty string with normal form \<open>k\<close>; and the
  type hints of these entries.
\<close>

definition standard_values :: "string \<Rightarrow> (string \<times> pyval) list \<Rightarrow> pyval list" where
  "standard_values k attrs =
     concat (map (\<lambda>field_name. if field_name = k \<and> present (get_or attrs field_name PNone)
                                 then [get_or attrs field_name PNone] else [])
               standard_fields)"

definition observed_as :: "string \<Rightarrow> (string \<times> pyval) list \<Rightarrow> bool" where
  "observed_as k d =
     (case get_or d ''label'' (PStr []) of
        PStr s \<Rightarrow> s \<noteq> [] \<and> present (get_or d ''value'' PNone) \<and> normalize_field_name s = k
      | _ \<Rightarrow> False)"

definition custom_values :: "string \<Rightarrow> field_obj list \<Rightarrow> pyval list" where
  "custom_values k fs =
     concat (map (\<lambda>f. case f of
                          NotADict \<Rightarrow> []
                        | FieldObj d \<Rightarrow> if observed_as k d then [get_or d ''value'' PNone] else []) fs)"

definition custom_hints :: "string \<Rightarrow> field_obj list \<Rightarrow> pyval set" where
  "custom_hints k fs =
     (\<Union>f \<in> set fs. case f of
                       NotADict \<Rightarrow> {}
                     | FieldObj d \<Rightarrow>
                         if observed_as k d then {get_or d ''type'' (PStr ''string'')} else {})"

definition record_values :: "string \<Rightarrow> raw_record \<Rightarrow> pyval list" where
  "record_values k r =
     (case r of
        NotARecord \<Rightarrow> []
      | RawRecord attrs fs rels \<Rightarrow> standard_values k attrs @ custom_values k fs)"

definition record_hints :: "string \<Rightarrow> raw_record \<Rightarrow> pyval set" where
  "record_hints k r =
     (case r of NotARecord \<Rightarrow> {} | RawRecord attrs fs rels \<Rightarrow> custom_hints k fs)"

text \<open>The observations of a field over the records of a type, in the order of the scan.\<close>

definition field_values :: "string \<Rightarrow> raw_record list \<Rightarrow> pyval list" where
  "field_values k rs = concat (map (record_values k) rs)"

definition field_hints :: "string \<Rightarrow> raw_record list \<Rightarrow> pyval set" where
  "field_hints k rs = (\<Union>r \<in> set rs. record_hints k r)"

text \<open>The values and the hints that \<^verbatim>\<open>field_data\<close> holds for a key.\<close>

definition values_in :: "(string \<times> field_obs) list \<Rightarrow> string \<Rightarrow> pyval list" where
  "values_in fd k = (case map_of fd k of None \<Rightarrow> [] | Some ob \<Rightarrow> obs_values ob)"

definition types_in :: "(string \<times> field_obs) list \<Rightarrow> string \<Rightarrow> pyval set" where
  "types_in fd k = (case map_of fd k of None \<Rightarrow> {} | Some ob \<Rightarrow> obs_types ob)"

text \<open>
  What holds of \<^verbatim>\<open>field_data\<close> at every moment: the keys are distinct and every entry has a value.
\<close>

definition well_observed :: "(string \<times> field_obs) list \<Rightarrow> bool" where
  "well_observed fd = (distinct (map fst fd) \<and> (\<forall>(k, ob) \<in> set fd. obs_values ob \<noteq> []))"

section \<open>The statuses as the specification words them\<close>

text \<open>
  The values of the field entries labelled exactly \<^verbatim>\<open>Status\<close>, in order; and the step that
  adds one of them to the statuses of the type.
\<close>

definition status_entry_values :: "field_obj list \<Rightarrow> pyval list" where
  "status_entry_values fs =
     concat (map (\<lambda>f. case f of
                          NotADict \<Rightarrow> []
                        | FieldObj d \<Rightarrow>
                            if map_of d ''label'' = Some (PStr ''Status'')
                            then [get_or d ''value'' PNone] else []) fs)"

definition add_status :: "pyval \<Rightarrow> pyval list \<Rightarrow> pyval list" where
  "add_status status sts =
     (if truthy status \<and> \<not> list_ex (py_eq status) sts then sts @ [status] else sts)"

section \<open>The relation catalog as the specification words it\<close>

text \<open>The names of the relation entries of a record, in order; an entry without a type is \<^verbatim>\<open>UNKNOWN\<close>.\<close>

definition relation_name :: "string option \<Rightarrow> string" where
  "relation_name type_opt = (case type_opt of None \<Rightarrow> ''UNKNOWN'' | Some t \<Rightarrow> t)"

definition relation_names :: "raw_record \<Rightarrow> string list" where
  "relation_names r =
     (case r of
        NotARecord \<Rightarrow> []
      | RawRecord attrs fs rels \<Rightarrow>
          concat (map (\<lambda>rel. case rel of NotARelation \<Rightarrow> [] | Relation t \<Rightarrow> [relation_name t]) rels))"

text \<open>
  Every relation entry met while scanning the records type by type, with the type of its
  record: the pair of the source type and the relation name.
\<close>

definition scanned_relations :: "(string \<times> raw_record list) list \<Rightarrow> (string \<times> string) list" where
  "scanned_relations by_type =
     concat (map (\<lambda>(tn, records). map (\<lambda>n. (tn, n)) (concat (map relation_names records))) by_type)"

text \<open>The relation names in the order of their discovery, and the aggregate count of a name.\<close>

definition discovered_relations :: "(string \<times> raw_record list) list \<Rightarrow> string list" where
  "discovered_relations by_type = dedup_first_seen (map snd (scanned_relations by_type))"

definition aggregate_count :: "(string \<times> raw_record list) list \<Rightarrow> string \<Rightarrow> nat" where
  "aggregate_count by_type n = count_list (map snd (scanned_relations by_type)) n"

text \<open>\<open>a\<close> stands in the list before the first occurrence of \<open>b\<close>.\<close>

definition precedes :: "'a \<Rightarrow> 'a \<Rightarrow> 'a list \<Rightarrow> bool" where
  "precedes a b xs = (a \<in> set (takeWhile (\<lambda>x. x \<noteq> b) xs))"

text \<open>
  One scanned relation entry, as the pair of its source type and its name, applied to
  \<^verbatim>\<open>relation_data\<close>; and the count that \<^verbatim>\<open>relation_data\<close> holds for a name.
\<close>

definition relation_step :: "string \<times> string \<Rightarrow> (string \<times> relation_obs) list \<Rightarrow> (string \<times> relation_obs) list" where
  "relation_step x d =
     defaultdict_modify default_relation_obs (snd x)
       (\<lambda>d. d\<lparr>obs_fromTypes := obs_fromTypes d @ [fst x], obs_count := obs_count d + 1\<rparr>) d"

definition count_in :: "(string \<times> relation_obs) list \<Rightarrow> string \<Rightarrow> nat" where
  "count_in d n = (case map_of d n of None \<Rightarrow> 0 | Some ob \<Rightarrow> obs_count ob)"

section \<open>What a fetch yields for a type\<close>

text \<open>
  The records that the client returns for the query of a type (none after a failed call),
  the count that goes with them, and the type information after a fetch with records.
\<close>

definition fetched_records :: "(string \<Rightarrow> response option) \<Rightarrow> item_type_info \<Rightarrow> raw_record list" where
  "fetched_records client type_info =
     (case client (kqlQuery type_info) of None \<Rightarrow> [] | Some (Response records total_opt) \<Rightarrow> records)"

definition fetched_total :: "(string \<Rightarrow> response option) \<Rightarrow> item_type_info \<Rightarrow> int" where
  "fetched_total client type_info =
     (case client (kqlQuery type_info) of
        Some (Response records (Some t)) \<Rightarrow> t
      | _ \<Rightarrow> int (length (fetched_records client type_info)))"

definition fetched_info :: "(string \<Rightarrow> response option) \<Rightarrow> item_type_info \<Rightarrow> item_type_info" where
  "fetched_info client type_info =
     type_info\<lparr>item_count := fetched_total client type_info,
               shortName := infer_short_name (take 20 (fetched_records client type_info))
                              (shortName type_info)\<rparr>"

text \<open>The types of the extractor with their counts, in the order of the dictionary.\<close>

definition type_counts :: "extractor \<Rightarrow> (string \<times> int) list" where
  "type_counts st = map (\<lambda>(tn, t). (tn, item_count t)) (item_types st)"

section \<open>The short prefix as the specification words it\<close>

text \<open>The values of the field entries labelled \<^verbatim>\<open>ID\<close>, in the order of the scan.\<close>

definition id_entry_values :: "field_obj list \<Rightarrow> pyval list" where
  "id_entry_values fs =
     concat (map (\<lambda>f. case f of
                          NotADict \<Rightarrow> []
                        | FieldObj d \<Rightarrow>
                            if map_of d ''label'' = Some (PStr ''ID'')
                            then [get_or d ''value'' (PStr [])] else []) fs)"

definition id_values :: "raw_record list \<Rightarrow> pyval list" where
  "id_values rs =
     concat (map (\<lambda>r. case r of NotARecord \<Rightarrow> [] | RawRecord attrs fs rels \<Rightarrow> id_entry_values fs) rs)"

text \<open>Of every value that contains the separator, the part before the first separator.\<close>

definition candidate_prefixes :: "pyval list \<Rightarrow> string list" where
  "candidate_prefixes vs =
     map (\<lambda>v. takeWhile (\<lambda>c. c \<noteq> CHR ''-'') (py_str v))
       (filter (\<lambda>v. CHR ''-'' \<in> set (py_str v)) vs)"

text \<open>A prefix is accepted when it is alphabetic and 1 to 6 characters long.\<close>

definition accepted_prefix :: "string \<Rightarrow> bool" where
  "accepted_prefix p = (list_all alpha_char p \<and> 1 \<le> length p \<and> length p \<le> 6)"

text \<open>The first accepted prefix among the first 20 records, or the empty name.\<close>

definition short_prefix :: "raw_record list \<Rightarrow> string" where
  "short_prefix rs =
     (case find accepted_prefix (candidate_prefixes (id_values (take 20 rs))) of
        None \<Rightarrow> [] | Some p \<Rightarrow> p)"

section \<open>Inputs of the scenarios\<close>

definition root_cause_record :: raw_record where
  "root_cause_record =
     RawRecord [(''title'', PStr ''Pump stalls'')]
       [FieldObj [(''label'', PStr ''Root Cause''), (''value'', PStr ''Worn seal''),
                  (''type'', PStr ''string'')]]
       []"

definition login_fields :: "field_obj list" where
  "login_fields =
     [FieldObj [(''label'', PStr ''ID''), (''value'', PInt 17)],
      FieldObj [(''label'', PStr ''Status''), (''value'', PStr ''Open''), (''type'', PStr ''string'')],
      FieldObj [(''label'', PStr ''Priority''), (''value'', PInt 2), (''type'', PStr ''number'')]]"

definition logout_fields :: "field_obj list" where
  "logout_fields =
     [FieldObj [(''label'', PStr ''ID''), (''value'', PStr ''R2-D2'')],
      FieldObj [(''label'', PStr ''ID''), (''value'', PStr ''REQ-12'')],
      FieldObj [(''label'', PStr ''Status''), (''value'', PStr ''Open''), (''type'', PStr ''string'')]]"

definition audit_fields :: "field_obj list" where
  "audit_fields =
     [FieldObj [(''label'', PStr ''ID''), (''value'', PStr ''SYS-3'')],
      FieldObj [(''label'', PStr ''Status''), (''value'', PStr ''Closed''), (''type'', PStr ''string'')],
      FieldObj [(''label'', PStr ''Priority''), (''value'', PInt 1), (''type'', PStr ''number'')]]"

definition requirement_records :: "raw_record list" where
  "requirement_records =
     [RawRecord [(''title'', PStr ''Login'')] login_fields
        [Relation (Some ''tests''), Relation (Some ''implements'')],
      RawRecord [(''title'', PStr ''Logout'')] logout_fields [],
      RawRecord [(''title'', PStr ''Audit'')] audit_fields [Relation (Some ''tests'')]]"

text \<open>The statuses that the analysis finds for a fresh type named \<open>tn\<close>.\<close>

definition statuses_of :: "raw_record list \<Rightarrow> string \<Rightarrow> pyval list option" where
  "statuses_of rs tn =
     (case analyze_type rs (new_item_type tn) of Inl e \<Rightarrow> None | Inr t \<Rightarrow> Some (statuses t))"

definition requirement_client :: "string \<Rightarrow> response option" where
  "requirement_client q =
     (if q = ''type:Requirement'' then Some (Response requirement_records (Some 3)) else None)"

definition requirement_state :: extractor where
  "requirement_state =
     \<lparr>item_types = [(''Requirement'', new_item_type ''Requirement''), (''Risk'', new_item_type ''Risk'')],
      relation_types = [], all_records_by_type = []\<rparr>"

definition linked_state :: extractor where
  "linked_state =
     \<lparr>item_types = [(''Requirement'', new_item_type ''Requirement''), (''Risk'', new_item_type ''Risk'')],
      relation_types = [],
      all_records_by_type =
        [(''Requirement'',
          [RawRecord [(''title'', PStr ''Login'')] []
             [Relation (Some ''tests''), Relation (Some ''implements''), NotARelation],
           RawRecord [(''title'', PStr ''Logout'')] []
             [Relation (Some ''mitigates''), Relation (Some ''implements'')]]),
         (''Risk'',
          [RawRecord [(''title'', PStr ''Leak'')] []
             [Relation (Some ''mitigates''), Relation (Some ''tests''), Relation (Some ''mitigates''),
              Relation None]])]\<rparr>"

text \<open>
  The field with key \<open>k\<close> that the analysis of the records \<open>rs\<close> infers for a fresh type
  named \<open>tn\<close>, its serialized form, and one attribute of the serialized form.
\<close>

definition inferred_field :: "raw_record list \<Rightarrow> string \<Rightarrow> string \<Rightarrow> field_info option" where
  "inferred_field rs tn k =
     (case analyze_type rs (new_item_type tn) of Inl e \<Rightarrow> None | Inr t \<Rightarrow> map_of (type_fields t) k)"

definition serialized_field :: "raw_record list \<Rightarrow> string \<Rightarrow> string \<Rightarrow> (string \<times> json) list option" where
  "serialized_field rs tn k = map_option FieldInfo_to_dict (inferred_field rs tn k)"

definition serialized_attribute :: "raw_record list \<Rightarrow> string \<Rightarrow> string \<Rightarrow> string \<Rightarrow> json option option" where
  "serialized_attribute rs tn k a =
     (case serialized_field rs tn k of None \<Rightarrow> None | Some d \<Rightarrow> Some (map_of d a))"

definition pump_record :: raw_record where
  "pump_record = RawRecord [(''title'', PStr ''Pump'')] [] []"

definition repeated_field_records :: "raw_record list" where
  "repeated_field_records =
     [RawRecord [(''title'', PStr ''Valve'')]
        [FieldObj [(''label'', PStr ''Owner''), (''value'', PStr ''Ada''), (''type'', PStr ''string'')],
         FieldObj [(''label'', PStr ''Owner''), (''value'', PStr ''Bob''), (''type'', PStr ''string'')],
         FieldObj [(''label'', PStr ''Owner''), (''value'', PStr ''Cy''), (''type'', PStr ''string'')]] [],
      pump_record]"

text \<open>The sample records that the analysis builds for a fresh type named \<open>tn\<close>.\<close>

definition sample_records_of :: "raw_record list \<Rightarrow> string \<Rightarrow> (string \<times> string) list list option" where
  "sample_records_of rs tn =
     (case analyze_type rs (new_item_type tn) of Inl e \<Rightarrow> None | Inr t \<Rightarrow> Some (sampleRecords t))"

definition zero_value_records :: "raw_record list" where
  "zero_value_records =
     [RawRecord [(''title'', PStr ''Sensor'')]
        [FieldObj [(''label'', PStr ''Count''), (''value'', PInt 0), (''type'', PStr ''number'')],
         FieldObj [(''label'', PStr ''Active''), (''value'', PBool False), (''type'', PStr ''boolean'')],
         FieldObj [(''label'', PStr ''Site''), (''value'', PStr ''Lab''), (''type'', PStr ''string'')]]
        []]"

text \<open>
  Ten records with a plain remark, then one whose remark holds markup.
\<close>

definition plain_remark :: raw_record where
  "plain_remark =
     RawRecord [] [FieldObj [(''label'', PStr ''Remark''), (''value'', PStr ''ok''), (''type'', PStr ''string'')]] []"

definition markup_remark :: raw_record where
  "markup_remark =
     RawRecord [] [FieldObj [(''label'', PStr ''Remark''), (''value'', PStr ''<p>ok</p>''), (''type'', PStr ''string'')]] []"

definition late_markup_records :: "raw_record list" where
  "late_markup_records = replicate 10 plain_remark @ [markup_remark]"

section \<open>Normalisation of field names\<close>

lemma str_replace_idem:
  "str_replace a b (str_replace a b s) = str_replace a b s"
  by (simp add: str_replace_def)

text \<open>
  C10. Normalising a field name (every space becomes an underscore) a second time changes
  nothing: for every string, the normal form of the normal form is the normal form.
\<close>

theorem normalize_field_name_idempotent:
  "normalize_field_name (normalize_field_name key) = normalize_field_name key"
  unfolding normalize_field_name_def by (rule str_replace_idem)

section \<open>The value sampler\<close>

lemma foldl_fromkeys:
  "foldl (\<lambda>d k. if k \<in> set d then d else d @ [k]) d xs
     = d @ dedup_first_seen (filter (\<lambda>y. y \<notin> set d) xs)"
proof (induction xs arbitrary: d)
  case Nil
  then show ?case by simp
next
  case (Cons x xs)
  show ?case
  proof (cases "x \<in> set d")
    case True
    then show ?thesis using Cons.IH [of d] by simp
  next
    case False
    have "filter (\<lambda>y. y \<noteq> x) (filter (\<lambda>y. y \<notin> set d) xs)
            = filter (\<lambda>y. y \<notin> set (d @ [x])) xs"
      by (simp add: conj_commute)
    then show ?thesis using False Cons.IH [of "d @ [x]"] by simp
  qed
qed

lemma dict_fromkeys_dedup: "dict_fromkeys xs = dedup_first_seen xs"
  by (simp add: dict_fromkeys_def foldl_fromkeys)

lemma set_dedup_first_seen: "set (dedup_first_seen xs) = set xs"
  by (induction xs rule: dedup_first_seen.induct) auto

lemma distinct_dedup_first_seen: "distinct (dedup_first_seen xs)"
  by (induction xs rule: dedup_first_seen.induct) (auto simp: set_dedup_first_seen)

lemma truncate_value_canonical: "truncate_value v = canonical_string v"
  by (cases v) (simp_all add: canonical_string_def MAX_STRING_LENGTH_def)

text \<open>
  C3. For a field that is not rich text, let \<open>unique\<close> be the observed values, each made a
  string (a string cut to 100 characters, anything else written out), without repetitions
  and in the order of first occurrence. With at most 25 members the enumerated values are
  \<open>unique\<close> in ascending order and there are no example values; with more, the example
  values are the first 5 members of \<open>unique\<close>, in their order, and nothing is enumerated.
  For a rich-text field both lists are empty.
\<close>

theorem compute_value_samples_domain:
  "compute_value_samples vs data_type =
     (if data_type = ''richText'' then ([], [])
      else (let unique = dedup_first_seen (map canonical_string vs)
            in if length unique \<le> 25 then (sort unique, []) else ([], take 5 unique)))"
proof -
  have m: "map truncate_value vs = map canonical_string vs"
    by (simp add: truncate_value_canonical)
  show ?thesis
    by (simp add: compute_value_samples_def m dict_fromkeys_dedup py_sorted_def
        MAX_UNIQUE_VALUES_def MAX_SAMPLE_VALUES_def Let_def)
qed

theorem compute_value_samples_domain_witness:
  "compute_value_samples [PStr ''b'', PInt 3, PStr ''b'', PBool False, PStr ''a''] ''number''
     = ([''3'', ''False'', ''a'', ''b''], [])"
proof -
  have "compute_value_samples [PStr ''b'', PInt 3, PStr ''b'', PBool False, PStr ''a''] ''number''
      = (if ''number'' = ''richText'' then ([], [])
         else (let unique = dedup_first_seen
                     (map canonical_string [PStr ''b'', PInt 3, PStr ''b'', PBool False, PStr ''a''])
               in if length unique \<le> 25 then (sort unique, []) else ([], take 5 unique)))"
    by (rule compute_value_samples_domain)
  also have "\<dots> = ([''3'', ''False'', ''a'', ''b''], [])"
    by code_simp
  finally show ?thesis .
qed

section \<open>The label \<^verbatim>\<open>Root Cause\<close>\<close>

text \<open>
  The name that is matched against the patterns has its underscores turned into spaces,
  so the pattern \<^verbatim>\<open>root_cause\<close> does not occur in it: for the key \<^verbatim>\<open>Root_Cause\<close>
  only the values decide.
\<close>

lemma root_cause_decided_by_values:
  "is_rich_text_field ''Root_Cause'' vs = list_ex rich_value (take 10 vs)"
proof -
  have "list_ex (\<lambda>pattern. py_in_str pattern (str_replace CHR ''_'' CHR '' '' (py_lower ''Root_Cause'')))
          RICH_TEXT_FIELD_PATTERNS = False"
    by code_simp
  then show ?thesis
    by (simp add: is_rich_text_field_def)
qed

text \<open>
  C1, at a record whose only field entry is labelled \<^verbatim>\<open>Root Cause\<close> and holds a short
  plain string: the field is inferred as a string with the plain access path only, and its
  value is enumerated. The claim asks for rich text, both access paths and no values.
\<close>

theorem root_cause_field_inferred_as_string:
  "serialized_field [root_cause_record] ''Anomaly'' ''Root_Cause''
     = Some [(''label'', Scalar (PStr ''Root Cause'')),
             (''dataType'', Scalar (PStr ''string'')),
             (''access'', Object [(''plain'', Scalar (PStr ''fieldValue.Root_Cause''))]),
             (''isCustomField'', Scalar (PBool True)),
             (''uniqueValues'', Array [Scalar (PStr ''Worn seal'')])]"
  by code_simp

section \<open>Dictionaries as association lists\<close>

lemma map_update_absent:
  "k \<notin> fst ` set d \<Longrightarrow> map (\<lambda>(k', v'). if k' = k then (k', v) else (k', v')) d = d"
  by (induction d) auto

lemma dict_set_new: "k \<notin> fst ` set d \<Longrightarrow> dict_set d k v = d @ [(k, v)]"
  by (simp add: dict_set_def)

lemma dict_set_here:
  "k \<notin> fst ` set as \<Longrightarrow> k \<notin> fst ` set bs \<Longrightarrow>
     dict_set (as @ (k, v) # bs) k v' = as @ (k, v') # bs"
  by (simp add: dict_set_def map_update_absent)

lemma map_of_map_update_other:
  "x \<noteq> k \<Longrightarrow> map_of (map (\<lambda>(k', v'). if k' = k then (k', v) else (k', v')) d) x = map_of d x"
  by (induction d) (simp_all add: case_prod_unfold)

lemma map_of_map_update_same:
  "k \<in> fst ` set d \<Longrightarrow> map_of (map (\<lambda>(k', v'). if k' = k then (k', v) else (k', v')) d) k = Some v"
  by (induction d) (auto simp: case_prod_unfold)

lemma map_of_dict_set: "map_of (dict_set d k v) = (map_of d)(k \<mapsto> v)"
proof (cases "k \<in> fst ` set d")
  case False
  then have "map_of d k = None" by (simp add: map_of_eq_None_iff)
  then show ?thesis using False
    by (auto simp: dict_set_def fun_eq_iff map_add_def split: option.splits)
next
  case True
  show ?thesis
  proof
    fix x
    show "map_of (dict_set d k v) x = ((map_of d)(k \<mapsto> v)) x"
      using True by (cases "x = k") (simp_all add: dict_set_def map_of_map_update_other map_of_map_update_same)
  qed
qed

lemma keys_dict_set: "fst ` set (dict_set d k v) = insert k (fst ` set d)"
  by (auto simp: dict_set_def image_iff split: if_splits) force+

lemma fold_update_in_place:
  "distinct (map fst (ps @ xs)) \<Longrightarrow>
     fold (\<lambda>(k, i) d. if P i then d else dict_set d k (g i)) xs
          (map (\<lambda>(k, i). (k, if P i then i else g i)) ps @ xs)
       = map (\<lambda>(k, i). (k, if P i then i else g i)) (ps @ xs)"
proof (induction xs arbitrary: ps)
  case Nil
  then show ?case by simp
next
  case (Cons x xs)
  obtain k i where x: "x = (k, i)" by (cases x)
  let ?upd = "\<lambda>(k, i). (k, if P i then i else g i)"
  have d: "distinct (map fst ((ps @ [x]) @ xs))" using Cons.prems by simp
  have k1: "k \<notin> fst ` set (map ?upd ps)" using Cons.prems x by (auto simp: image_iff)
  have k2: "k \<notin> fst ` set xs" using Cons.prems x by (auto simp: image_iff)
  have step: "(if P i then map ?upd ps @ (k, i) # xs else dict_set (map ?upd ps @ (k, i) # xs) k (g i))
                = map ?upd (ps @ [x]) @ xs"
    using dict_set_here [OF k1 k2] x by simp
  show ?case
    using Cons.IH [OF d] step by (simp add: x)
qed

lemma fold_dict_set_fresh:
  "distinct (map fst xs) \<Longrightarrow> fst ` set xs \<inter> fst ` set d = {} \<Longrightarrow>
     fold (\<lambda>(k, i) d. if P i then d else dict_set d k (h i)) xs d
       = d @ map (\<lambda>(k, i). (k, h i)) (filter (\<lambda>(k, i). \<not> P i) xs)"
proof (induction xs arbitrary: d)
  case Nil
  then show ?case by simp
next
  case (Cons x xs)
  obtain k i where x: "x = (k, i)" by (cases x)
  have kd: "k \<notin> fst ` set d" using Cons.prems x by auto
  have dx: "distinct (map fst xs)" using Cons.prems by simp
  show ?case
  proof (cases "P i")
    case True
    have "fst ` set xs \<inter> fst ` set d = {}" using Cons.prems by auto
    then show ?thesis using Cons.IH [OF dx] True x by simp
  next
    case False
    have "fst ` set xs \<inter> fst ` set (d @ [(k, h i)]) = {}"
      using Cons.prems x by (auto simp: image_iff)
    then show ?thesis using Cons.IH [OF dx] False x by (simp add: dict_set_new [OF kd])
  qed
qed

lemma fold_dict_del: "fold (\<lambda>k d. dict_del d k) ks d = filter (\<lambda>(k, v). k \<notin> set ks) d"
proof (induction ks arbitrary: d)
  case Nil
  then show ?case by simp
next
  case (Cons k ks)
  have "fold (\<lambda>k d. dict_del d k) (k # ks) d = filter (\<lambda>(k', v). k' \<notin> set ks) (dict_del d k)"
    by (simp add: Cons.IH)
  also have "\<dots> = filter (\<lambda>(k', v). k' \<notin> set (k # ks)) d"
    unfolding dict_del_def filter_filter by (rule filter_cong) auto
  finally show ?case .
qed

section \<open>Fetching\<close>

lemma fetch_type_eq:
  "fetch_type client (tn, type_info) (st, rm) =
     (if fetched_records client type_info = [] then (st, rm @ [tn])
      else (st\<lparr>all_records_by_type :=
                  dict_set (all_records_by_type st) tn (fetched_records client type_info),
               item_types := dict_set (item_types st) tn (fetched_info client type_info)\<rparr>, rm))"
  by (auto simp: fetch_type_def fetched_records_def fetched_total_def fetched_info_def Let_def
      split: option.splits response.splits)

lemma fold_fetch_type:
  "fold (fetch_type client) xs (st, rm) =
     (st\<lparr>all_records_by_type :=
            fold (\<lambda>(tn, info) d. if fetched_records client info = [] then d
                                  else dict_set d tn (fetched_records client info))
              xs (all_records_by_type st),
         item_types :=
            fold (\<lambda>(tn, info) d. if fetched_records client info = [] then d
                                  else dict_set d tn (fetched_info client info))
              xs (item_types st)\<rparr>,
      rm @ map fst (filter (\<lambda>(tn, info). fetched_records client info = []) xs))"
proof (induction xs arbitrary: st rm)
  case Nil
  then show ?case by simp
next
  case (Cons x xs)
  obtain tn info where x: "x = (tn, info)" by (cases x)
  show ?case
    by (simp add: x fetch_type_eq Cons.IH)
qed

lemma fetch_keep_iff:
  assumes "distinct (map fst items)" and "(k, i) \<in> set items"
  shows "k \<notin> set (map fst (filter (\<lambda>(tn, info). P info) items)) \<longleftrightarrow> \<not> P i"
proof
  assume "k \<notin> set (map fst (filter (\<lambda>(tn, info). P info) items))"
  then show "\<not> P i" using assms(2) by (auto simp: image_iff)
next
  assume np: "\<not> P i"
  show "k \<notin> set (map fst (filter (\<lambda>(tn, info). P info) items))"
  proof
    assume "k \<in> set (map fst (filter (\<lambda>(tn, info). P info) items))"
    then obtain i' where "(k, i') \<in> set items" and "P i'" by auto
    then have "i' = i" using assms by (meson eq_key_imp_eq_value)
    then show False using \<open>P i'\<close> np by simp
  qed
qed

lemma fetch_records_by_type_items:
  assumes "distinct (map fst (item_types st))"
  shows "item_types (fetch_records_by_type client st) =
           map (\<lambda>(tn, info). (tn, fetched_info client info))
             (filter (\<lambda>(tn, info). fetched_records client info \<noteq> []) (item_types st))"
proof -
  let ?P = "\<lambda>info. fetched_records client info = []"
  let ?items = "item_types st"
  let ?rm = "map fst (filter (\<lambda>(tn, info). ?P info) ?items)"
  let ?upd = "\<lambda>(k, i). (k, if ?P i then i else fetched_info client i)"
  have items: "fold (\<lambda>(k, i) d. if ?P i then d else dict_set d k (fetched_info client i)) ?items ?items
                 = map ?upd ?items"
    using fold_update_in_place [of "[]" ?items ?P "fetched_info client"] assms by simp
  have "filter (\<lambda>(k, v). k \<notin> set ?rm) (map ?upd ?items)
          = map ?upd (filter (\<lambda>(k, i). k \<notin> set ?rm) ?items)"
    by (simp add: filter_map comp_def case_prod_unfold)
  also have "filter (\<lambda>(k, i). k \<notin> set ?rm) ?items = filter (\<lambda>(k, i). \<not> ?P i) ?items"
    by (rule filter_cong) (use fetch_keep_iff [OF assms, of _ _ ?P] in auto)
  also have "map ?upd (filter (\<lambda>(k, i). \<not> ?P i) ?items)
               = map (\<lambda>(tn, info). (tn, fetched_info client info)) (filter (\<lambda>(k, i). \<not> ?P i) ?items)"
    by (rule map_cong) auto
  finally show ?thesis
    by (simp add: fetch_records_by_type_def fold_fetch_type items fold_dict_del)
qed

lemma fetch_records_by_type_records:
  assumes "distinct (map fst (item_types st))" and "all_records_by_type st = []"
  shows "all_records_by_type (fetch_records_by_type client st) =
           map (\<lambda>(tn, info). (tn, fetched_records client info))
             (filter (\<lambda>(tn, info). fetched_records client info \<noteq> []) (item_types st))"
  using fold_dict_set_fresh [of "item_types st" "[]" "\<lambda>info. fetched_records client info = []"
      "fetched_records client"] assms
  by (simp add: fetch_records_by_type_def fold_fetch_type)

lemma fetch_records_by_type_relations:
  "relation_types (fetch_records_by_type client st) = relation_types st"
  by (simp add: fetch_records_by_type_def fold_fetch_type)

section \<open>The short prefix\<close>

lemma py_in_str_single: "py_in_str [c] s \<longleftrightarrow> c \<in> set s"
  by (induction s) auto

lemma digit_char_0: "digit_char 0 = CHR ''0''"
  by code_simp

lemma falsy_no_dash: "\<not> truthy v \<Longrightarrow> CHR ''-'' \<notin> set (py_str v)"
  by (cases v) (auto simp: str_of_int_def digit_char_0)

lemma get_or_is_str: "get_or d k PNone = PStr s \<longleftrightarrow> map_of d k = Some (PStr s)"
  by (cases "map_of d k") (simp_all add: get_or_def)

lemma find_append_case:
  "find P (xs @ ys) = (case find P xs of None \<Rightarrow> find P ys | Some x \<Rightarrow> Some x)"
  by (induction xs) auto

lemma candidate_prefixes_append:
  "candidate_prefixes (xs @ ys) = candidate_prefixes xs @ candidate_prefixes ys"
  by (simp add: candidate_prefixes_def)

lemma candidate_prefixes_Nil: "candidate_prefixes [] = []"
  by (simp add: candidate_prefixes_def)

lemma candidate_prefixes_Cons:
  "candidate_prefixes (v # vs) =
     (if CHR ''-'' \<in> set (py_str v) then [takeWhile (\<lambda>c. c \<noteq> CHR ''-'') (py_str v)] else [])
     @ candidate_prefixes vs"
  by (simp add: candidate_prefixes_def)

lemma accepted_prefix_isalpha:
  "accepted_prefix p \<longleftrightarrow> isalpha p \<and> 1 \<le> length p \<and> length p \<le> 6"
  by (auto simp: accepted_prefix_def isalpha_def)

lemma accepted_prefix_nonempty: "accepted_prefix p \<Longrightarrow> p \<noteq> []"
  by (auto simp: accepted_prefix_def)

lemma id_entry_values_simps:
  "id_entry_values [] = []"
  "id_entry_values (NotADict # fs) = id_entry_values fs"
  "id_entry_values (FieldObj d # fs) =
     (if map_of d ''label'' = Some (PStr ''ID'') then [get_or d ''value'' (PStr [])] else [])
     @ id_entry_values fs"
  by (simp_all add: id_entry_values_def)

lemma id_values_simps:
  "id_values [] = []"
  "id_values (NotARecord # rs) = id_values rs"
  "id_values (RawRecord attrs fs rels # rs) = id_entry_values fs @ id_values rs"
  by (simp_all add: id_values_def)

lemma scan_id_fields_find:
  "scan_id_fields fs short =
     (case find accepted_prefix (candidate_prefixes (id_entry_values fs)) of
        None \<Rightarrow> short | Some p \<Rightarrow> p)"
proof (induction fs)
  case Nil
  then show ?case by (simp add: id_entry_values_simps candidate_prefixes_Nil)
next
  case (Cons f fs)
  show ?case
  proof (cases f)
    case NotADict
    then show ?thesis using Cons.IH by (simp add: id_entry_values_simps)
  next
    case (FieldObj d)
    show ?thesis
    proof (cases "map_of d ''label'' = Some (PStr ''ID'')")
      case False
      then show ?thesis using Cons.IH FieldObj
        by (simp add: id_entry_values_simps get_or_is_str)
    next
      case True
      let ?v = "get_or d ''value'' (PStr [])"
      show ?thesis
      proof (cases "CHR ''-'' \<in> set (py_str ?v)")
        case False
        then show ?thesis using Cons.IH FieldObj True
          by (simp add: id_entry_values_simps candidate_prefixes_append candidate_prefixes_Cons
              get_or_is_str py_in_str_single del: py_in_str.simps)
      next
        case dash: True
        then have t: "truthy ?v" using falsy_no_dash by blast
        show ?thesis using Cons.IH FieldObj True dash t
          by (simp add: id_entry_values_simps candidate_prefixes_append candidate_prefixes_Cons
              get_or_is_str py_in_str_single split_first_def
              accepted_prefix_isalpha Let_def del: py_in_str.simps)
      qed
    qed
  qed
qed

lemma infer_short_name_find:
  "infer_short_name rs [] =
     (case find accepted_prefix (candidate_prefixes (id_values rs)) of None \<Rightarrow> [] | Some p \<Rightarrow> p)"
proof (induction rs)
  case Nil
  then show ?case by (simp add: id_values_simps candidate_prefixes_Nil)
next
  case (Cons r rs)
  show ?case
  proof (cases r)
    case NotARecord
    then show ?thesis using Cons.IH by (simp add: id_values_simps)
  next
    case (RawRecord attrs fs rels)
    show ?thesis
    proof (cases "find accepted_prefix (candidate_prefixes (id_entry_values fs))")
      case None
      then show ?thesis using Cons.IH RawRecord
        by (simp add: id_values_simps candidate_prefixes_append find_append_case scan_id_fields_find Let_def)
    next
      case (Some p)
      then have "accepted_prefix p" by (auto simp: find_Some_iff)
      then have "p \<noteq> []" by (rule accepted_prefix_nonempty)
      then show ?thesis using Some RawRecord
        by (simp add: id_values_simps candidate_prefixes_append find_append_case scan_id_fields_find Let_def)
    qed
  qed
qed

lemma infer_short_name_short_prefix:
  "infer_short_name (take 20 records) [] = short_prefix records"
  by (simp add: infer_short_name_find short_prefix_def)

lemma map_of_map_filter_values:
  assumes "distinct (map fst xs)" and "(k, v) \<in> set xs" and "P v"
  shows "map_of (map (\<lambda>(k, v). (k, g v)) (filter (\<lambda>(k, v). P v) xs)) k = Some (g v)"
proof -
  have "distinct (map fst (map (\<lambda>(k, v). (k, g v)) (filter (\<lambda>(k, v). P v) xs)))"
    using assms(1) by (simp add: comp_def case_prod_unfold distinct_map_filter)
  moreover have "(k, g v) \<in> set (map (\<lambda>(k, v). (k, g v)) (filter (\<lambda>(k, v). P v) xs))"
    using assms(2,3) by force
  ultimately show ?thesis by (rule map_of_is_SomeI)
qed

lemma map_of_to_dict_shortName:
  "map_of (ItemTypeInfo_to_dict t) ''shortName'' =
     (if shortName t = [] then None else Some (json_str (shortName t)))"
  by (simp add: ItemTypeInfo_to_dict_def)

text \<open>
  C8. A type is fetched with at least one record and had no short name before. Among the
  first 20 records, in order, take the value of every field entry labelled \<^verbatim>\<open>ID\<close>; of
  every such value that contains the separator \<^verbatim>\<open>-\<close>, take the part before the first
  separator. The short name of the type is the first of these prefixes that is alphabetic
  and 1 to 6 characters long; with no such prefix it stays empty, and \<^verbatim>\<open>to_dict\<close> has
  the key \<^verbatim>\<open>shortName\<close> exactly when the short name is not empty.
\<close>

theorem short_name_inferred:
  assumes "distinct (map fst (item_types st))"
    and "(tn, type_info) \<in> set (item_types st)"
    and "shortName type_info = []"
    and "client (kqlQuery type_info) = Some (Response records total_opt)"
    and "records \<noteq> []"
  shows "\<exists>type_info'.
           map_of (item_types (fetch_records_by_type client st)) tn = Some type_info'
           \<and> shortName type_info' = short_prefix records
           \<and> map_of (ItemTypeInfo_to_dict type_info') ''shortName'' =
               (if short_prefix records = [] then None else Some (json_str (short_prefix records)))"
proof -
  have recs: "fetched_records client type_info = records"
    using assms(4) by (simp add: fetched_records_def)
  have "map_of (item_types (fetch_records_by_type client st)) tn = Some (fetched_info client type_info)"
    using map_of_map_filter_values [OF assms(1,2), of "\<lambda>i. fetched_records client i \<noteq> []" "fetched_info client"]
      recs assms(5)
    by (simp add: fetch_records_by_type_items [OF assms(1)])
  moreover have "shortName (fetched_info client type_info) = short_prefix records"
    by (simp add: fetched_info_def recs assms(3) infer_short_name_short_prefix)
  ultimately show ?thesis
    by (simp add: map_of_to_dict_shortName)
qed

theorem short_name_inferred_witness:
  "\<exists>type_info'.
     map_of (item_types (fetch_records_by_type requirement_client requirement_state)) ''Requirement''
       = Some type_info'
     \<and> shortName type_info' = ''REQ''
     \<and> map_of (ItemTypeInfo_to_dict type_info') ''shortName'' = Some (json_str ''REQ'')"
proof -
  have h1: "distinct (map fst (item_types requirement_state))"
    by (simp add: requirement_state_def)
  have h2: "(''Requirement'', new_item_type ''Requirement'') \<in> set (item_types requirement_state)"
    by (simp add: requirement_state_def)
  have h3: "shortName (new_item_type ''Requirement'') = []"
    by (simp add: new_item_type_def)
  have h4: "requirement_client (kqlQuery (new_item_type ''Requirement''))
              = Some (Response requirement_records (Some 3))"
    by (simp add: requirement_client_def new_item_type_def)
  have h5: "requirement_records \<noteq> []"
    by (simp add: requirement_records_def)
  have p: "short_prefix requirement_records = ''REQ''"
    by code_simp
  show ?thesis
    using short_name_inferred [of requirement_state "''Requirement''" "new_item_type ''Requirement''"
        requirement_client requirement_records "Some 3", OF h1 h2 h3 h4 h5]
    by (simp add: p)
qed

section \<open>The relation catalog\<close>

lemma observe_relation_step:
  "observe_relation tn rel d =
     fold relation_step (map (\<lambda>n. (tn, n)) (case rel of NotARelation \<Rightarrow> [] | Relation t \<Rightarrow> [relation_name t])) d"
  by (cases rel) (simp_all add: observe_relation_def relation_step_def relation_name_def)

lemma fold_observe_relation:
  "fold (observe_relation tn) rels d =
     fold relation_step
       (map (\<lambda>n. (tn, n)) (concat (map (\<lambda>rel. case rel of NotARelation \<Rightarrow> [] | Relation t \<Rightarrow> [relation_name t]) rels))) d"
  by (induction rels arbitrary: d) (simp_all add: observe_relation_step)

lemma observe_relations_of_record_step:
  "observe_relations_of_record tn r d = fold relation_step (map (\<lambda>n. (tn, n)) (relation_names r)) d"
  by (cases r) (simp_all add: observe_relations_of_record_def relation_names_def fold_observe_relation)

lemma fold_observe_records:
  "fold (observe_relations_of_record tn) records d =
     fold relation_step (map (\<lambda>n. (tn, n)) (concat (map relation_names records))) d"
  by (induction records arbitrary: d) (simp_all add: observe_relations_of_record_step)

lemma fold_observe_types:
  "fold (\<lambda>(tn, records) relation_data. fold (observe_relations_of_record tn) records relation_data) by_type d
     = fold relation_step (scanned_relations by_type) d"
  by (induction by_type arbitrary: d) (simp_all add: scanned_relations_def fold_observe_records case_prod_unfold)

lemma collect_relation_data_scan:
  "collect_relation_data by_type = fold relation_step (scanned_relations by_type) []"
  by (simp add: collect_relation_data_def fold_observe_types)

lemma keys_defaultdict_modify:
  "map fst (defaultdict_modify dflt k f d) = (if k \<in> fst ` set d then map fst d else map fst d @ [k])"
  by (simp add: defaultdict_modify_def comp_def case_prod_unfold)

lemma fold_relation_step_keys:
  "map fst (fold relation_step xs d)
     = map fst d @ dedup_first_seen (filter (\<lambda>n. n \<notin> fst ` set d) (map snd xs))"
proof (induction xs arbitrary: d)
  case Nil
  then show ?case by simp
next
  case (Cons x xs)
  show ?case
  proof (cases "snd x \<in> fst ` set d")
    case True
    then have k: "map fst (relation_step x d) = map fst d"
      by (simp add: relation_step_def keys_defaultdict_modify)
    have "set (map fst (relation_step x d)) = set (map fst d)"
      by (simp only: k)
    then have s: "fst ` set (relation_step x d) = fst ` set d"
      by simp
    show ?thesis using True by (simp add: Cons.IH k s)
  next
    case False
    then have k: "map fst (relation_step x d) = map fst d @ [snd x]"
      by (simp add: relation_step_def keys_defaultdict_modify)
    have "set (map fst (relation_step x d)) = set (map fst d @ [snd x])"
      by (simp only: k)
    then have s: "fst ` set (relation_step x d) = insert (snd x) (fst ` set d)"
      by simp
    have "filter (\<lambda>y. y \<noteq> snd x) (filter (\<lambda>n. n \<notin> fst ` set d) (map snd xs))
            = filter (\<lambda>n. n \<notin> insert (snd x) (fst ` set d)) (map snd xs)"
      by (simp add: conj_commute)
    then show ?thesis using False by (simp add: Cons.IH k s)
  qed
qed

lemma map_of_defaultdict_modify:
  "map_of (defaultdict_modify dflt k f d)
     = (map_of d)(k \<mapsto> f (case map_of d k of None \<Rightarrow> dflt | Some v \<Rightarrow> v))"
proof (cases "k \<in> fst ` set d")
  case False
  then have "map_of d k = None" by (simp add: map_of_eq_None_iff)
  then show ?thesis using False
    by (auto simp: defaultdict_modify_def fun_eq_iff map_add_def split: option.splits)
next
  case True
  have other: "map_of (map (\<lambda>(k', v). if k' = k then (k', f v) else (k', v)) d) x = map_of d x"
    if "x \<noteq> k" for x
    using that by (induction d) (simp_all add: case_prod_unfold)
  have same: "map_of (map (\<lambda>(k', v). if k' = k then (k', f v) else (k', v)) d) k
                = map_option f (map_of d k)"
    by (induction d) (auto simp: case_prod_unfold)
  obtain v where v: "map_of d k = Some v"
    using True by (metis map_of_eq_None_iff not_Some_eq)
  show ?thesis
  proof
    fix x
    show "map_of (defaultdict_modify dflt k f d) x
            = ((map_of d)(k \<mapsto> f (case map_of d k of None \<Rightarrow> dflt | Some v \<Rightarrow> v))) x"
      using True v by (cases "x = k") (simp_all add: defaultdict_modify_def other same)
  qed
qed

lemma count_in_relation_step:
  "count_in (relation_step x d) n = count_in d n + (if snd x = n then 1 else 0)"
  by (simp add: count_in_def relation_step_def map_of_defaultdict_modify default_relation_obs_def
      split: option.splits)

lemma count_in_fold:
  "count_in (fold relation_step xs d) n = count_in d n + count_list (map snd xs) n"
  by (induction xs arbitrary: d) (simp_all add: count_in_relation_step)

lemma distinct_collect: "distinct (map fst (fold relation_step xs []))"
  by (simp add: fold_relation_step_keys distinct_dedup_first_seen)

lemma relation_data_counts:
  "map (\<lambda>(n, ob). (n, obs_count ob)) (fold relation_step xs [])
     = map (\<lambda>n. (n, count_list (map snd xs) n)) (dedup_first_seen (map snd xs))"
proof -
  let ?d = "fold relation_step xs []"
  have c: "obs_count ob = count_list (map snd xs) n" if "(n, ob) \<in> set ?d" for n ob
  proof -
    have "map_of ?d n = Some ob" using that distinct_collect by (simp add: map_of_is_SomeI)
    then have "count_in ?d n = obs_count ob" by (simp add: count_in_def)
    moreover have "count_in ?d n = count_list (map snd xs) n"
      by (simp add: count_in_fold) (simp add: count_in_def)
    ultimately show ?thesis by simp
  qed
  have "map (\<lambda>(n, ob). (n, obs_count ob)) ?d = map (\<lambda>(n, ob). (n, count_list (map snd xs) n)) ?d"
    by (rule map_cong) (use c in auto)
  also have "\<dots> = map (\<lambda>n. (n, count_list (map snd xs) n)) (map fst ?d)"
    by (simp add: comp_def case_prod_unfold)
  finally show ?thesis by (simp add: fold_relation_step_keys)
qed

lemma sorted_reverse_descending:
  "sorted_wrt (\<lambda>a b. k b \<le> k a) (sorted_reverse k xs)"
proof -
  have "sorted (map k (sort_key k (rev xs)))" by (rule sorted_sort_key)
  then have "sorted_wrt (\<lambda>a b. k a \<le> k b) (sort_key k (rev xs))"
    by (simp add: sorted_wrt_map)
  then show ?thesis
    by (simp add: sorted_reverse_def sorted_wrt_rev)
qed

lemma sorted_reverse_stable:
  "filter (\<lambda>y. k y = c) (sorted_reverse k xs) = filter (\<lambda>y. k y = c) xs"
proof -
  have "filter (\<lambda>y. k y = c) (sorted_reverse k xs) = rev (filter (\<lambda>y. k y = c) (sort_key k (rev xs)))"
    by (simp add: sorted_reverse_def rev_filter)
  also have "\<dots> = rev (filter (\<lambda>y. k y = c) (rev xs))"
    by (simp only: sort_key_stable)
  also have "\<dots> = filter (\<lambda>y. k y = c) xs"
    by (simp add: rev_filter)
  finally show ?thesis .
qed

lemma set_sorted_reverse: "set (sorted_reverse k xs) = set xs"
  by (simp add: sorted_reverse_def)

lemma map_insort_key: "map f (insort_key (\<lambda>x. k (f x)) x xs) = insort_key k (f x) (map f xs)"
  by (induction xs) simp_all

lemma map_sort_key: "map f (sort_key (\<lambda>x. k (f x)) xs) = sort_key k (map f xs)"
  by (induction xs) (simp_all add: map_insort_key)

lemma map_sorted_reverse: "map f (sorted_reverse (\<lambda>x. k (f x)) xs) = sorted_reverse k (map f xs)"
proof -
  have "sorted_reverse k (map f xs) = rev (sort_key k (map f (rev xs)))"
    by (simp add: sorted_reverse_def rev_map)
  also have "\<dots> = rev (map f (sort_key (\<lambda>x. k (f x)) (rev xs)))"
    by (simp only: map_sort_key)
  also have "\<dots> = map f (sorted_reverse (\<lambda>x. k (f x)) xs)"
    by (simp add: sorted_reverse_def rev_map)
  finally show ?thesis by simp
qed

lemma precedes_filter:
  "P a \<Longrightarrow> P b \<Longrightarrow> precedes a b (filter P xs) \<longleftrightarrow> precedes a b xs"
  unfolding precedes_def by (induction xs) auto

lemma takeWhile_take_member:
  "b \<in> set (take n xs) \<Longrightarrow> takeWhile (\<lambda>x. x \<noteq> b) (take n xs) = takeWhile (\<lambda>x. x \<noteq> b) xs"
proof (induction xs arbitrary: n)
  case Nil
  then show ?case by simp
next
  case (Cons x xs)
  then show ?case by (cases n) auto
qed

lemma precedes_take:
  "b \<in> set (take n xs) \<Longrightarrow> precedes a b xs \<Longrightarrow> precedes a b (take n xs)"
  by (simp add: precedes_def takeWhile_take_member)

lemma precedes_member: "precedes a b xs \<Longrightarrow> a \<in> set xs"
  unfolding precedes_def by (meson set_takeWhileD)

lemma precedes_sorted_reverse:
  assumes "k a = k b" and "precedes a b xs"
  shows "precedes a b (sorted_reverse k xs)"
proof -
  let ?P = "\<lambda>y. k y = k b"
  have "precedes a b (filter ?P xs)"
    using assms by (simp add: precedes_filter)
  then have "precedes a b (filter ?P (sorted_reverse k xs))"
    by (simp add: sorted_reverse_stable)
  then show ?thesis
    using assms(1) by (simp add: precedes_filter)
qed

lemma fold_dict_set_keyed:
  "distinct (map fst xs) \<Longrightarrow> fst ` set xs \<inter> fst ` set d = {} \<Longrightarrow>
     fold (\<lambda>(k, i) d. dict_set d k (h k i)) xs d = d @ map (\<lambda>(k, i). (k, h k i)) xs"
proof (induction xs arbitrary: d)
  case Nil
  then show ?case by simp
next
  case (Cons x xs)
  obtain k i where x: "x = (k, i)" by (cases x)
  have kd: "k \<notin> fst ` set d" using Cons.prems x by auto
  have dx: "distinct (map fst xs)" using Cons.prems by simp
  have "fst ` set xs \<inter> fst ` set (d @ [(k, h k i)]) = {}"
    using Cons.prems x by (auto simp: image_iff)
  then show ?case using Cons.IH [OF dx] x by (simp add: dict_set_new [OF kd])
qed

lemma relation_types_analyzed:
  assumes "relation_types st = []"
  shows "relation_types (analyze_relations st)
           = map (\<lambda>(n, ob). (n, relation_info_of n ob)) (collect_relation_data (all_records_by_type st))"
proof -
  have "distinct (map fst (collect_relation_data (all_records_by_type st)))"
    by (simp add: collect_relation_data_scan distinct_collect)
  then show ?thesis
    using fold_dict_set_keyed [of "collect_relation_data (all_records_by_type st)" "[]" relation_info_of]
    by (simp add: analyze_relations_def Let_def assms)
qed

lemma relation_catalog:
  assumes "relation_types st = []"
  shows "map (\<lambda>r. (relationType r, rel_count r)) (map snd (relation_types (analyze_relations st)))
           = map (\<lambda>n. (n, aggregate_count (all_records_by_type st) n))
               (discovered_relations (all_records_by_type st))"
proof -
  have "map (\<lambda>r. (relationType r, rel_count r)) (map snd (relation_types (analyze_relations st)))
          = map (\<lambda>(n, ob). (n, obs_count ob)) (collect_relation_data (all_records_by_type st))"
    by (simp add: relation_types_analyzed [OF assms] comp_def case_prod_unfold relation_info_of_def)
  then show ?thesis
    by (simp add: collect_relation_data_scan relation_data_counts discovered_relations_def
        aggregate_count_def)
qed

lemma relationTypes_output:
  "map (\<lambda>r. (d_relationType r, d_count r)) (relationTypes (build_output st))
     = take 20 (sorted_reverse snd (map (\<lambda>r. (relationType r, rel_count r)) (map snd (relation_types st))))"
proof -
  have "map (\<lambda>r. (d_relationType r, d_count r)) (relationTypes (build_output st))
          = take 20 (map (\<lambda>r. (relationType r, rel_count r))
                       (sorted_reverse (\<lambda>r. snd (relationType r, rel_count r)) (map snd (relation_types st))))"
    by (simp add: build_output_def Let_def comp_def RelationTypeInfo_to_dict_def take_map)
  then show ?thesis
    using map_sorted_reverse [of "\<lambda>r. (relationType r, rel_count r)" snd "map snd (relation_types st)"]
    by simp
qed

lemma relation_names_output:
  assumes "relation_types st = []"
  shows "map d_relationType (relationTypes (build_output (analyze_relations st)))
           = take 20 (sorted_reverse (aggregate_count (all_records_by_type st))
                        (discovered_relations (all_records_by_type st)))"
proof -
  let ?by = "all_records_by_type st"
  let ?g = "\<lambda>n. (n, aggregate_count ?by n)"
  have "map d_relationType (relationTypes (build_output (analyze_relations st)))
          = map fst (map (\<lambda>r. (d_relationType r, d_count r)) (relationTypes (build_output (analyze_relations st))))"
    by (simp add: comp_def)
  also have "\<dots> = map fst (take 20 (sorted_reverse snd (map ?g (discovered_relations ?by))))"
    by (simp only: relationTypes_output relation_catalog [OF assms])
  also have "sorted_reverse snd (map ?g (discovered_relations ?by))
               = map ?g (sorted_reverse (\<lambda>n. snd (?g n)) (discovered_relations ?by))"
    by (rule map_sorted_reverse [symmetric])
  finally show ?thesis
    by (simp add: take_map comp_def)
qed

text \<open>
  C6. The extractor has no relation catalog before the analysis. Then the relation types of
  the output, as pairs of name and count, are the discovered relation names with their
  aggregate counts, sorted by count in descending order by a stable sort and cut to the
  first 20. So the output has at most 20 entries with counts that never increase, and of
  two names with equal counts of which the second is in the output, the one discovered
  first stands before the other in the output.
\<close>

theorem relation_catalog_sorted_stable:
  assumes "relation_types st = []"
  shows "(let by_type = all_records_by_type st;
              out = relationTypes (build_output (analyze_relations st));
              names = map d_relationType out
          in map (\<lambda>r. (d_relationType r, d_count r)) out
               = take 20 (sorted_reverse snd
                            (map (\<lambda>n. (n, aggregate_count by_type n)) (discovered_relations by_type)))
           \<and> sorted_wrt (\<lambda>r r'. d_count r' \<le> d_count r) out
           \<and> length out \<le> 20
           \<and> (\<forall>a b. aggregate_count by_type a = aggregate_count by_type b
                    \<and> precedes a b (discovered_relations by_type) \<and> b \<in> set names
                  \<longrightarrow> precedes a b names))"
proof -
  let ?by = "all_records_by_type st"
  let ?out = "relationTypes (build_output (analyze_relations st))"
  let ?names = "map d_relationType ?out"
  have eq: "map (\<lambda>r. (d_relationType r, d_count r)) ?out
              = take 20 (sorted_reverse snd
                           (map (\<lambda>n. (n, aggregate_count ?by n)) (discovered_relations ?by)))"
    by (simp only: relationTypes_output relation_catalog [OF assms])
  have "sorted_wrt (\<lambda>r r'. rel_count r' \<le> rel_count r)
          (take 20 (sorted_reverse rel_count (map snd (relation_types (analyze_relations st)))))"
    by (rule sorted_wrt_take) (rule sorted_reverse_descending)
  then have srt: "sorted_wrt (\<lambda>r r'. d_count r' \<le> d_count r) ?out"
    by (simp add: build_output_def Let_def sorted_wrt_map RelationTypeInfo_to_dict_def)
  have len: "length ?out \<le> 20"
    by (simp add: build_output_def Let_def)
  have stable: "precedes a b ?names"
    if "aggregate_count ?by a = aggregate_count ?by b" and "precedes a b (discovered_relations ?by)"
      and "b \<in> set ?names" for a b
  proof -
    have "precedes a b (sorted_reverse (aggregate_count ?by) (discovered_relations ?by))"
      using that(1,2) by (rule precedes_sorted_reverse)
    moreover have "b \<in> set (take 20 (sorted_reverse (aggregate_count ?by) (discovered_relations ?by)))"
      using that(3) by (simp only: relation_names_output [OF assms])
    ultimately have "precedes a b (take 20 (sorted_reverse (aggregate_count ?by) (discovered_relations ?by)))"
      by (simp add: precedes_take)
    then show ?thesis by (simp only: relation_names_output [OF assms])
  qed
  show ?thesis
    unfolding Let_def using eq srt len stable by blast
qed

theorem relation_catalog_sorted_stable_witness:
  "map (\<lambda>r. (d_relationType r, d_count r)) (relationTypes (build_output (analyze_relations linked_state)))
     = [(''mitigates'', 3), (''tests'', 2), (''implements'', 2), (''UNKNOWN'', 1)]
   \<and> precedes ''tests'' ''implements''
        (map d_relationType (relationTypes (build_output (analyze_relations linked_state))))"
proof -
  have h: "relation_types linked_state = []"
    by (simp add: linked_state_def)
  have d: "discovered_relations (all_records_by_type linked_state)
             = [''tests'', ''implements'', ''mitigates'', ''UNKNOWN'']"
    by code_simp
  have c: "map (\<lambda>n. (n, aggregate_count (all_records_by_type linked_state) n))
               [''tests'', ''implements'', ''mitigates'', ''UNKNOWN'']
             = [(''tests'', 2), (''implements'', 2), (''mitigates'', 3), (''UNKNOWN'', 1)]"
    by code_simp
  have s: "take 20 (sorted_reverse snd [(''tests'', 2::nat), (''implements'', 2), (''mitigates'', 3), (''UNKNOWN'', 1)])
             = [(''mitigates'', 3), (''tests'', 2), (''implements'', 2), (''UNKNOWN'', 1)]"
    by code_simp
  have p: "precedes ''tests'' ''implements'' [''tests'', ''implements'', ''mitigates'', ''UNKNOWN'']"
    by code_simp
  have m: "''implements'' \<in> set (map fst [(''mitigates'', 3::nat), (''tests'', 2), (''implements'', 2), (''UNKNOWN'', 1)])"
    by simp
  have a: "aggregate_count (all_records_by_type linked_state) ''tests''
             = aggregate_count (all_records_by_type linked_state) ''implements''"
    by code_simp
  from relation_catalog_sorted_stable [OF h]
  have eq: "map (\<lambda>r. (d_relationType r, d_count r)) (relationTypes (build_output (analyze_relations linked_state)))
              = [(''mitigates'', 3), (''tests'', 2), (''implements'', 2), (''UNKNOWN'', 1)]"
    and st: "\<And>a b. aggregate_count (all_records_by_type linked_state) a = aggregate_count (all_records_by_type linked_state) b
               \<Longrightarrow> precedes a b (discovered_relations (all_records_by_type linked_state))
               \<Longrightarrow> b \<in> set (map d_relationType (relationTypes (build_output (analyze_relations linked_state))))
               \<Longrightarrow> precedes a b (map d_relationType (relationTypes (build_output (analyze_relations linked_state))))"
    unfolding Let_def d c s by blast+
  have names: "map d_relationType (relationTypes (build_output (analyze_relations linked_state)))
                 = map fst (map (\<lambda>r. (d_relationType r, d_count r)) (relationTypes (build_output (analyze_relations linked_state))))"
    by (simp add: comp_def)
  have "''implements'' \<in> set (map d_relationType (relationTypes (build_output (analyze_relations linked_state))))"
    unfolding names eq by simp
  then have "precedes ''tests'' ''implements''
               (map d_relationType (relationTypes (build_output (analyze_relations linked_state))))"
    using st [OF a] p d by simp
  then show ?thesis using eq by simp
qed

section \<open>Types without records\<close>

lemma fold_err_preserves:
  assumes "\<And>x s s'. f x s = Inr s' \<Longrightarrow> P s \<Longrightarrow> P s'"
    and "fold_err f xs s = Inr s'" and "P s"
  shows "P s'"
  using assms(2,3)
proof (induction xs arbitrary: s)
  case Nil
  then show ?case by simp
next
  case (Cons x xs)
  then show ?case using assms(1) by (auto split: sum.splits)
qed

lemma analyze_type_count:
  "analyze_type records type_info = Inr type_info' \<Longrightarrow> item_count type_info' = item_count type_info"
  by (auto simp: analyze_type_def Let_def split: sum.splits)

lemma dict_set_same_projection:
  assumes "distinct (map fst d)" and "map_of d k = Some v" and "f v' = f v"
  shows "map (\<lambda>(k, t). (k, f t)) (dict_set d k v') = map (\<lambda>(k, t). (k, f t)) d"
proof -
  have k: "k \<in> fst ` set d" using assms(2) by (metis map_of_eq_None_iff option.distinct(1))
  have "(case x of (k', t) \<Rightarrow> (k', f t)) = (case (case x of (k', t) \<Rightarrow> if k' = k then (k', v') else (k', t)) of (k', t) \<Rightarrow> (k', f t))"
    if "x \<in> set d" for x
  proof (cases x)
    case (Pair k' t)
    show ?thesis
    proof (cases "k' = k")
      case True
      then have "t = v" using that Pair assms(1,2) by (metis map_of_is_SomeI option.inject)
      then show ?thesis using Pair True assms(3) by simp
    next
      case False
      then show ?thesis using Pair by simp
    qed
  qed
  then have "map (\<lambda>(k, t). (k, f t)) d
               = map (\<lambda>x. case (case x of (k', t) \<Rightarrow> if k' = k then (k', v') else (k', t)) of (k', t) \<Rightarrow> (k', f t)) d"
    by (intro map_cong) auto
  then show ?thesis using k by (simp add: dict_set_def comp_def)
qed

lemma distinct_type_counts: "distinct (map fst (type_counts st)) = distinct (map fst (item_types st))"
  by (simp add: type_counts_def comp_def case_prod_unfold)

lemma analyze_entry_preserves:
  assumes "analyze_entry e st = Inr st'"
    and "distinct (map fst (item_types st)) \<and> type_counts st = c \<and> all_records_by_type st = a \<and> relation_types st = r"
  shows "distinct (map fst (item_types st')) \<and> type_counts st' = c \<and> all_records_by_type st' = a \<and> relation_types st' = r"
proof -
  obtain tn records where e: "e = (tn, records)" by (cases e)
  show ?thesis
  proof (cases "records = [] \<or> map_of (item_types st) tn = None")
    case True
    then have "st' = st" using assms(1) e by (auto simp: analyze_entry_def split: if_splits)
    then show ?thesis using assms(2) by simp
  next
    case False
    then obtain info where info: "map_of (item_types st) tn = Some info" and ne: "records \<noteq> []" by auto
    then obtain info' where a: "analyze_type records info = Inr info'"
      and st': "st' = st\<lparr>item_types := dict_set (item_types st) tn info'\<rparr>"
      using assms(1) e by (auto simp: analyze_entry_def split: sum.splits)
    have "item_count info' = item_count info" using a by (rule analyze_type_count)
    then have "type_counts st' = type_counts st"
      using dict_set_same_projection [of "item_types st" tn info item_count info'] assms(2) info
      by (simp add: type_counts_def st')
    moreover have "all_records_by_type st' = a \<and> relation_types st' = r" using assms(2) st' by simp
    ultimately show ?thesis using assms(2) distinct_type_counts [of st] distinct_type_counts [of st'] by simp
  qed
qed

lemma analyze_all_fields_preserves:
  assumes "analyze_all_fields st = Inr st'" and "distinct (map fst (item_types st))"
  shows "type_counts st' = type_counts st" and "all_records_by_type st' = all_records_by_type st"
    and "relation_types st' = relation_types st" and "distinct (map fst (item_types st'))"
proof -
  let ?P = "\<lambda>s. distinct (map fst (item_types s)) \<and> type_counts s = type_counts st
                \<and> all_records_by_type s = all_records_by_type st \<and> relation_types s = relation_types st"
  have "?P st'"
  proof (rule fold_err_preserves [where f = analyze_entry and P = ?P])
    show "fold_err analyze_entry (all_records_by_type st) st = Inr st'"
      using assms(1) by (simp add: analyze_all_fields_def)
    show "?P st" using assms(2) by simp
    show "\<And>x s s'. analyze_entry x s = Inr s' \<Longrightarrow> ?P s \<Longrightarrow> ?P s'"
      by (rule analyze_entry_preserves)
  qed
  then show "type_counts st' = type_counts st" and "all_records_by_type st' = all_records_by_type st"
    and "relation_types st' = relation_types st" and "distinct (map fst (item_types st'))"
    by simp_all
qed

lemma analyze_relations_preserves:
  "type_counts (analyze_relations st) = type_counts st"
  "all_records_by_type (analyze_relations st) = all_records_by_type st"
  by (simp_all add: analyze_relations_def Let_def type_counts_def comp_def case_prod_unfold)

lemma distinct_keys_sorted_reverse:
  "distinct (map fst xs) \<Longrightarrow> distinct (map fst (sorted_reverse k xs))"
  by (simp add: sorted_reverse_def distinct_map inj_on_def) 

lemma itemTypes_keys:
  assumes "distinct (map fst (item_types st))"
  shows "fst ` set (itemTypes (build_output st)) = fst ` set (type_counts st)"
proof -
  let ?sorted = "sorted_reverse (\<lambda>x. item_count (snd x)) (item_types st)"
  have "distinct (map fst ?sorted)" using assms by (rule distinct_keys_sorted_reverse)
  then have "fold (\<lambda>(tn, info) d. dict_set d tn (ItemTypeInfo_to_dict info)) ?sorted []
               = map (\<lambda>(tn, info). (tn, ItemTypeInfo_to_dict info)) ?sorted"
    using fold_dict_set_keyed [of ?sorted "[]" "\<lambda>tn info. ItemTypeInfo_to_dict info"] by simp
  then have "itemTypes (build_output st) = map (\<lambda>(tn, info). (tn, ItemTypeInfo_to_dict info)) ?sorted"
    by (simp add: build_output_def Let_def)
  then show ?thesis
    by (force simp: type_counts_def set_sorted_reverse image_iff)
qed

lemma totals_output:
  "totalItems (build_output st) = sum_list (map snd (type_counts st))"
  "itemTypeCount (build_output st) = length (type_counts st)"
  by (simp_all add: build_output_def Let_def type_counts_def comp_def case_prod_unfold)

lemma count_list_filter_other: "y \<noteq> x \<Longrightarrow> count_list (filter (\<lambda>z. z \<noteq> x) xs) y = count_list xs y"
  by (induction xs) auto

lemma length_split_count: "count_list xs x + length (filter (\<lambda>z. z \<noteq> x) xs) = length xs"
  by (induction xs) auto

lemma sum_counts_dedup: "sum_list (map (count_list xs) (dedup_first_seen xs)) = length xs"
proof (induction xs rule: dedup_first_seen.induct)
  case 1
  then show ?case by simp
next
  case (2 x xs)
  let ?ys = "filter (\<lambda>y. y \<noteq> x) xs"
  have "count_list (x # xs) y = count_list ?ys y" if "y \<in> set (dedup_first_seen ?ys)" for y
  proof -
    have "y \<noteq> x" using that by (simp add: set_dedup_first_seen)
    then show ?thesis by (simp add: count_list_filter_other)
  qed
  then have m: "map (count_list (x # xs)) (dedup_first_seen ?ys) = map (count_list ?ys) (dedup_first_seen ?ys)"
    by (intro map_cong) simp_all
  have "sum_list (map (count_list (x # xs)) (dedup_first_seen (x # xs)))
          = count_list (x # xs) x + sum_list (map (count_list (x # xs)) (dedup_first_seen ?ys))"
    by simp
  also have "\<dots> = count_list (x # xs) x + length ?ys"
    by (simp only: m "2.IH")
  also have "\<dots> = length (x # xs)"
    using length_split_count [of xs x] by simp
  finally show ?case .
qed

lemma totalRelations_output:
  assumes "relation_types st = []"
  shows "totalRelations (build_output (analyze_relations st)) = length (scanned_relations (all_records_by_type st))"
proof -
  let ?by = "all_records_by_type st"
  have "totalRelations (build_output (analyze_relations st))
          = sum_list (map snd (map (\<lambda>r. (relationType r, rel_count r)) (map snd (relation_types (analyze_relations st)))))"
    by (simp add: build_output_def Let_def comp_def case_prod_unfold)
  also have "\<dots> = sum_list (map snd (map (\<lambda>n. (n, aggregate_count ?by n)) (discovered_relations ?by)))"
    by (simp only: relation_catalog [OF assms])
  also have "\<dots> = sum_list (map (count_list (map snd (scanned_relations ?by)))
                              (dedup_first_seen (map snd (scanned_relations ?by))))"
    by (simp add: comp_def aggregate_count_def discovered_relations_def)
  finally show ?thesis by (simp add: sum_counts_dedup)
qed

lemma fetched_records_empty_iff:
  "fetched_records client type_info = [] \<longleftrightarrow>
     client (kqlQuery type_info) = None \<or> (\<exists>total. client (kqlQuery type_info) = Some (Response [] total))"
  by (auto simp: fetched_records_def split: option.splits response.splits)

lemma type_counts_fetched:
  assumes "distinct (map fst (item_types st))"
  shows "type_counts (fetch_records_by_type client st)
           = map (\<lambda>(tn, info). (tn, fetched_total client info))
               (filter (\<lambda>(tn, info). fetched_records client info \<noteq> []) (item_types st))"
  by (simp add: type_counts_def fetch_records_by_type_items [OF assms] comp_def case_prod_unfold
      fetched_info_def)

text \<open>
  C7. The extractor starts from the discovered types, with no records and no relations
  yet. A discovered type whose fetch fails or returns an empty record list is in neither
  dictionary after the fetch, while every type whose fetch returns records is kept, with
  its records, its count and its short name. Whenever the extraction returns an output,
  the item types of the output are exactly the kept types, and the summary counts the
  kept types only: the total of their counts, their number, and the number of relation
  entries of their records.
\<close>

theorem dropped_type_absent:
  assumes "distinct (map fst (item_types st))"
    and "all_records_by_type st = []" and "relation_types st = []"
    and "(tn, type_info) \<in> set (item_types st)"
    and "client (kqlQuery type_info) = None
         \<or> (\<exists>total. client (kqlQuery type_info) = Some (Response [] total))"
  shows "(let kept = filter (\<lambda>(tn', info). fetched_records client info \<noteq> []) (item_types st);
              st' = fetch_records_by_type client st
          in tn \<notin> fst ` set (item_types st')
           \<and> tn \<notin> fst ` set (all_records_by_type st')
           \<and> item_types st' = map (\<lambda>(tn', info). (tn', fetched_info client info)) kept
           \<and> all_records_by_type st' = map (\<lambda>(tn', info). (tn', fetched_records client info)) kept
           \<and> (\<forall>out. extract_discovered client st = Inr out \<longrightarrow>
                  tn \<notin> fst ` set (itemTypes out)
                \<and> fst ` set (itemTypes out) = fst ` set kept
                \<and> totalItems out = sum_list (map (\<lambda>(tn', info). fetched_total client info) kept)
                \<and> itemTypeCount out = length kept
                \<and> totalRelations out
                    = length (scanned_relations
                        (map (\<lambda>(tn', info). (tn', fetched_records client info)) kept))))"
proof -
  let ?kept = "filter (\<lambda>(tn', info). fetched_records client info \<noteq> []) (item_types st)"
  let ?st = "fetch_records_by_type client st"
  have empty: "fetched_records client type_info = []"
    using assms(5) by (simp add: fetched_records_empty_iff)
  have notkept: "tn \<notin> fst ` set ?kept"
  proof
    assume "tn \<in> fst ` set ?kept"
    then obtain info where "(tn, info) \<in> set (item_types st)" and ne: "fetched_records client info \<noteq> []"
      by auto
    then have "info = type_info" using assms(1,4) by (meson eq_key_imp_eq_value)
    then show False using ne empty by simp
  qed
  have items: "item_types ?st = map (\<lambda>(tn', info). (tn', fetched_info client info)) ?kept"
    by (rule fetch_records_by_type_items [OF assms(1)])
  have recs: "all_records_by_type ?st = map (\<lambda>(tn', info). (tn', fetched_records client info)) ?kept"
    by (rule fetch_records_by_type_records [OF assms(1,2)])
  have k1: "fst ` set (item_types ?st) = fst ` set ?kept"
    by (force simp: items image_iff)
  have k2: "fst ` set (all_records_by_type ?st) = fst ` set ?kept"
    by (force simp: recs image_iff)
  have dst: "distinct (map fst (item_types ?st))"
    using assms(1) by (simp add: items comp_def case_prod_unfold distinct_map_filter)
  have out: "tn \<notin> fst ` set (itemTypes out)
               \<and> fst ` set (itemTypes out) = fst ` set ?kept
               \<and> totalItems out = sum_list (map (\<lambda>(tn', info). fetched_total client info) ?kept)
               \<and> itemTypeCount out = length ?kept
               \<and> totalRelations out
                   = length (scanned_relations (map (\<lambda>(tn', info). (tn', fetched_records client info)) ?kept))"
    if ex: "extract_discovered client st = Inr out" for out
  proof -
    from ex obtain st2 where a: "analyze_all_fields ?st = Inr st2"
      and o: "out = build_output (analyze_relations st2)"
      by (auto simp: extract_discovered_def split: sum.splits)
    note pres = analyze_all_fields_preserves [OF a dst]
    have tc: "type_counts (analyze_relations st2) = type_counts ?st"
      by (simp add: analyze_relations_preserves pres(1))
    have d3: "distinct (map fst (item_types (analyze_relations st2)))"
      using distinct_type_counts [of "analyze_relations st2"] distinct_type_counts [of ?st] tc dst by simp
    have keys: "fst ` set (itemTypes out) = fst ` set ?kept"
      using itemTypes_keys [OF d3] tc
      by (force simp: o type_counts_fetched [OF assms(1)] image_iff)
    have ti: "totalItems out = sum_list (map (\<lambda>(tn', info). fetched_total client info) ?kept)"
      by (simp add: o totals_output tc type_counts_fetched [OF assms(1)] comp_def case_prod_unfold)
    have tcnt: "itemTypeCount out = length ?kept"
      by (simp add: o totals_output tc type_counts_fetched [OF assms(1)])
    have r2: "relation_types st2 = []"
      by (simp add: pres(3) fetch_records_by_type_relations assms(3))
    have tr: "totalRelations out
                = length (scanned_relations (map (\<lambda>(tn', info). (tn', fetched_records client info)) ?kept))"
      by (simp add: o totalRelations_output [OF r2] pres(2) recs)
    show ?thesis using keys notkept ti tcnt tr by simp
  qed
  show ?thesis
    unfolding Let_def using notkept k1 k2 items recs out by simp
qed

theorem dropped_type_absent_witness:
  "''Risk'' \<notin> fst ` set (item_types (fetch_records_by_type requirement_client requirement_state))
   \<and> (\<exists>out. extract_discovered requirement_client requirement_state = Inr out
            \<and> ''Risk'' \<notin> fst ` set (itemTypes out)
            \<and> fst ` set (itemTypes out) = {''Requirement''}
            \<and> totalItems out = 3 \<and> itemTypeCount out = 1 \<and> totalRelations out = 3)"
proof -
  have h1: "distinct (map fst (item_types requirement_state))"
    by (simp add: requirement_state_def)
  have h2: "all_records_by_type requirement_state = []" and h3: "relation_types requirement_state = []"
    by (simp_all add: requirement_state_def)
  have h4: "(''Risk'', new_item_type ''Risk'') \<in> set (item_types requirement_state)"
    by (simp add: requirement_state_def)
  have h5: "requirement_client (kqlQuery (new_item_type ''Risk'')) = None
            \<or> (\<exists>total. requirement_client (kqlQuery (new_item_type ''Risk'')) = Some (Response [] total))"
    by (simp add: requirement_client_def new_item_type_def)
  have ok: "(case extract_discovered requirement_client requirement_state of Inl e \<Rightarrow> False | Inr out \<Rightarrow> True)"
    by code_simp
  then obtain out where out: "extract_discovered requirement_client requirement_state = Inr out"
    by (auto split: sum.splits)
  have kept: "filter (\<lambda>(tn', info). fetched_records requirement_client info \<noteq> []) (item_types requirement_state)
                = [(''Requirement'', new_item_type ''Requirement'')]"
    by code_simp
  have t: "fetched_total requirement_client (new_item_type ''Requirement'') = 3"
    by code_simp
  have n: "length (scanned_relations [(''Requirement'', fetched_records requirement_client (new_item_type ''Requirement''))]) = 3"
    by code_simp
  show ?thesis
    using dropped_type_absent [of requirement_state "''Risk''" "new_item_type ''Risk''" requirement_client,
        OF h1 h2 h3 h4 h5] out
    unfolding Let_def kept by (simp add: t n)
qed

section \<open>The observations of a field\<close>

lemma values_in_modify:
  "values_in (defaultdict_modify default_obs k' f fd) k
     = (if k = k'
        then obs_values (f (case map_of fd k' of None \<Rightarrow> default_obs | Some ob \<Rightarrow> ob))
        else values_in fd k)"
  by (simp add: values_in_def map_of_defaultdict_modify)

lemma types_in_modify:
  "types_in (defaultdict_modify default_obs k' f fd) k
     = (if k = k'
        then obs_types (f (case map_of fd k' of None \<Rightarrow> default_obs | Some ob \<Rightarrow> ob))
        else types_in fd k)"
  by (simp add: types_in_def map_of_defaultdict_modify)

lemma values_in_observe_standard:
  "values_in (observe_standard attrs field_name fd) k
     = values_in fd k @ (if field_name = k \<and> present (get_or attrs field_name PNone)
                         then [get_or attrs field_name PNone] else [])"
  by (auto simp: observe_standard_def Let_def values_in_modify)
     (auto simp: values_in_def default_obs_def split: option.splits)

lemma types_in_observe_standard:
  "types_in (observe_standard attrs field_name fd) k = types_in fd k"
  by (auto simp: observe_standard_def Let_def types_in_modify)
     (auto simp: types_in_def default_obs_def split: option.splits)

lemma values_in_fold_standard:
  "values_in (fold (observe_standard attrs) names fd) k
     = values_in fd k
       @ concat (map (\<lambda>field_name. if field_name = k \<and> present (get_or attrs field_name PNone)
                                    then [get_or attrs field_name PNone] else []) names)"
  by (induction names arbitrary: fd) (simp_all add: values_in_observe_standard)

lemma types_in_fold_standard:
  "types_in (fold (observe_standard attrs) names fd) k = types_in fd k"
  by (induction names arbitrary: fd) (simp_all add: types_in_observe_standard)

lemma observe_custom_cases:
  assumes "observe_custom f fd = Inr fd'"
  shows "values_in fd' k = values_in fd k @ custom_values k [f]"
    and "types_in fd' k = types_in fd k \<union> custom_hints k [f]"
proof -
  show "values_in fd' k = values_in fd k @ custom_values k [f]"
  proof (cases f)
    case NotADict
    then show ?thesis using assms by (simp add: observe_custom_def custom_values_def)
  next
    case (FieldObj d)
    show ?thesis
    proof (cases "get_or d ''label'' (PStr [])")
      case (PStr s)
      then show ?thesis using assms FieldObj
        by (auto simp: observe_custom_def custom_values_def observed_as_def Let_def values_in_modify
            split: if_splits)
           (auto simp: values_in_def default_obs_def split: option.splits)
    qed (use assms FieldObj in \<open>auto simp: observe_custom_def custom_values_def observed_as_def Let_def
            split: if_splits\<close>)
  qed
  show "types_in fd' k = types_in fd k \<union> custom_hints k [f]"
  proof (cases f)
    case NotADict
    then show ?thesis using assms by (simp add: observe_custom_def custom_hints_def)
  next
    case (FieldObj d)
    show ?thesis
    proof (cases "get_or d ''label'' (PStr [])")
      case (PStr s)
      then show ?thesis using assms FieldObj
        by (auto simp: observe_custom_def custom_hints_def observed_as_def Let_def types_in_modify
            split: if_splits)
           (auto simp: types_in_def default_obs_def split: option.splits)
    qed (use assms FieldObj in \<open>auto simp: observe_custom_def custom_hints_def observed_as_def Let_def
            split: if_splits\<close>)
  qed
qed

lemma custom_values_Cons: "custom_values k (f # fs) = custom_values k [f] @ custom_values k fs"
  by (simp add: custom_values_def)

lemma custom_hints_Cons: "custom_hints k (f # fs) = custom_hints k [f] \<union> custom_hints k fs"
  by (simp add: custom_hints_def)

lemma fold_observe_custom:
  "fold_err observe_custom fs fd = Inr fd' \<Longrightarrow>
     values_in fd' k = values_in fd k @ custom_values k fs
     \<and> types_in fd' k = types_in fd k \<union> custom_hints k fs"
proof (induction fs arbitrary: fd)
  case Nil
  then show ?case by (simp add: custom_values_def custom_hints_def)
next
  case (Cons f fs)
  from Cons.prems obtain fd1 where 1: "observe_custom f fd = Inr fd1"
    and 2: "fold_err observe_custom fs fd1 = Inr fd'"
    by (auto split: sum.splits)
  show ?case
    using Cons.IH [OF 2] observe_custom_cases [OF 1, of k]
    by (simp add: custom_values_Cons [of k f fs] custom_hints_Cons [of k f fs] Un_assoc)
qed

lemma observe_record_values:
  assumes "observe_record r fd = Inr fd'"
  shows "values_in fd' k = values_in fd k @ record_values k r"
    and "types_in fd' k = types_in fd k \<union> record_hints k r"
proof -
  show "values_in fd' k = values_in fd k @ record_values k r"
  proof (cases r)
    case NotARecord
    then show ?thesis using assms by (simp add: observe_record_def record_values_def)
  next
    case (RawRecord attrs fs rels)
    then have "fold_err observe_custom fs (fold (observe_standard attrs) standard_fields fd) = Inr fd'"
      using assms by (simp add: observe_record_def)
    from fold_observe_custom [OF this, of k] show ?thesis
      by (simp add: RawRecord record_values_def values_in_fold_standard standard_values_def)
  qed
  show "types_in fd' k = types_in fd k \<union> record_hints k r"
  proof (cases r)
    case NotARecord
    then show ?thesis using assms by (simp add: observe_record_def record_hints_def)
  next
    case (RawRecord attrs fs rels)
    then have "fold_err observe_custom fs (fold (observe_standard attrs) standard_fields fd) = Inr fd'"
      using assms by (simp add: observe_record_def)
    from fold_observe_custom [OF this, of k] show ?thesis
      by (simp add: RawRecord record_hints_def types_in_fold_standard)
  qed
qed

lemma fold_observe_record:
  "fold_err observe_record rs fd = Inr fd' \<Longrightarrow>
     values_in fd' k = values_in fd k @ field_values k rs
     \<and> types_in fd' k = types_in fd k \<union> field_hints k rs"
proof (induction rs arbitrary: fd)
  case Nil
  then show ?case by (simp add: field_values_def field_hints_def)
next
  case (Cons r rs)
  from Cons.prems obtain fd1 where 1: "observe_record r fd = Inr fd1"
    and 2: "fold_err observe_record rs fd1 = Inr fd'"
    by (auto split: sum.splits)
  show ?case
    using Cons.IH [OF 2] observe_record_values [OF 1, of k]
    by (simp add: field_values_def field_hints_def Un_assoc)
qed

lemma collect_field_data_values:
  assumes "collect_field_data rs = Inr fd"
  shows "values_in fd k = field_values k rs" and "types_in fd k = field_hints k rs"
  using fold_observe_record [of rs "[]" fd k] assms
  by (simp_all add: collect_field_data_def values_in_def types_in_def)

lemma well_observed_modify:
  assumes "well_observed fd" and "\<And>ob. obs_values (f ob) \<noteq> []"
  shows "well_observed (defaultdict_modify dflt k f fd)"
proof -
  have "distinct (map fst (defaultdict_modify dflt k f fd))"
    using assms(1) by (auto simp: keys_defaultdict_modify well_observed_def)
  moreover have "obs_values ob \<noteq> []" if "(k', ob) \<in> set (defaultdict_modify dflt k f fd)" for k' ob
    using that assms by (auto simp: defaultdict_modify_def well_observed_def split: if_splits)
  ultimately show ?thesis by (auto simp: well_observed_def)
qed

lemma well_observed_standard:
  "well_observed fd \<Longrightarrow> well_observed (observe_standard attrs field_name fd)"
  by (simp add: observe_standard_def Let_def well_observed_modify)

lemma well_observed_fold_standard:
  "well_observed fd \<Longrightarrow> well_observed (fold (observe_standard attrs) names fd)"
  by (induction names arbitrary: fd) (simp_all add: well_observed_standard)

lemma well_observed_custom:
  "observe_custom f fd = Inr fd' \<Longrightarrow> well_observed fd \<Longrightarrow> well_observed fd'"
  by (auto simp: observe_custom_def Let_def well_observed_modify split: field_obj.splits if_splits pyval.splits)

lemma well_observed_fold_custom:
  "fold_err observe_custom fs fd = Inr fd' \<Longrightarrow> well_observed fd \<Longrightarrow> well_observed fd'"
proof (induction fs arbitrary: fd)
  case Nil
  then show ?case by simp
next
  case (Cons f fs)
  from Cons.prems(1) obtain fd1 where 1: "observe_custom f fd = Inr fd1"
    and 2: "fold_err observe_custom fs fd1 = Inr fd'"
    by (auto split: sum.splits)
  show ?case
    using Cons.IH [OF 2] well_observed_custom [OF 1 Cons.prems(2)] by simp
qed

lemma well_observed_record:
  assumes "observe_record r fd = Inr fd'" and "well_observed fd"
  shows "well_observed fd'"
proof (cases r)
  case NotARecord
  then show ?thesis using assms by (simp add: observe_record_def)
next
  case (RawRecord attrs fs rels)
  then have "fold_err observe_custom fs (fold (observe_standard attrs) standard_fields fd) = Inr fd'"
    using assms(1) by (simp add: observe_record_def)
  then show ?thesis
    using well_observed_fold_standard [OF assms(2)] by (rule well_observed_fold_custom)
qed

lemma well_observed_fold_record:
  "fold_err observe_record rs fd = Inr fd' \<Longrightarrow> well_observed fd \<Longrightarrow> well_observed fd'"
proof (induction rs arbitrary: fd)
  case Nil
  then show ?case by simp
next
  case (Cons r rs)
  from Cons.prems(1) obtain fd1 where 1: "observe_record r fd = Inr fd1"
    and 2: "fold_err observe_record rs fd1 = Inr fd'"
    by (auto split: sum.splits)
  show ?case
    using Cons.IH [OF 2] well_observed_record [OF 1 Cons.prems(2)] by simp
qed

lemma well_observed_collect:
  assumes "collect_field_data rs = Inr fd"
  shows "well_observed fd"
proof -
  have "fold_err observe_record rs [] = Inr fd" using assms by (simp add: collect_field_data_def)
  moreover have "well_observed []" by (simp add: well_observed_def)
  ultimately show ?thesis by (rule well_observed_fold_record)
qed

lemma build_fields_map:
  assumes "well_observed fd"
  shows "build_fields n fd [] = map (\<lambda>(k, ob). (k, build_field_info n k ob)) fd"
proof -
  have "fold (\<lambda>(field_key, d) fs. if obs_values d = [] then fs
                                   else dict_set fs field_key (build_field_info n field_key d)) fd []
          = fold (\<lambda>(field_key, d) fs. dict_set fs field_key (build_field_info n field_key d)) fd []"
    by (rule fold_cong) (use assms in \<open>auto simp: well_observed_def\<close>)
  then show ?thesis
    using fold_dict_set_keyed [of fd "[]" "build_field_info n"] assms
    by (simp add: build_fields_def well_observed_def)
qed

lemma map_of_map_keyed:
  "map_of (map (\<lambda>(k, v). (k, g k v)) xs) k = map_option (g k) (map_of xs k)"
  by (induction xs) auto

lemma analyze_type_fields:
  assumes "analyze_type rs t0 = Inr t" and "type_fields t0 = []"
  shows "\<exists>fd. collect_field_data rs = Inr fd \<and> well_observed fd
              \<and> type_fields t = map (\<lambda>(k, ob). (k, build_field_info (length rs) k ob)) fd"
proof -
  from assms(1) obtain fd where c: "collect_field_data rs = Inr fd"
    and f: "type_fields t = build_fields (length rs) fd (type_fields t0)"
    by (auto simp: analyze_type_def Let_def split: sum.splits)
  have w: "well_observed fd" using c by (rule well_observed_collect)
  show ?thesis using c w f assms(2) by (simp add: build_fields_map)
qed

lemma field_inferred:
  assumes "analyze_type rs t0 = Inr t" and "type_fields t0 = []"
  shows "map_of (type_fields t) k = None \<longleftrightarrow> field_values k rs = []"
    and "map_of (type_fields t) k = Some info \<Longrightarrow>
           name info = k
           \<and> dataType info = resolve_data_type k (field_values k rs) (field_hints k rs)
           \<and> (uniqueValues info, exampleValues info) = compute_value_samples (field_values k rs) (dataType info)
           \<and> fillRate info = fill_rate (length (field_values k rs)) (length rs)
           \<and> access info = compute_access_paths k (isCustomField info) (dataType info)"
proof -
  from analyze_type_fields [OF assms] obtain fd where c: "collect_field_data rs = Inr fd"
    and w: "well_observed fd"
    and f: "type_fields t = map (\<lambda>(k, ob). (k, build_field_info (length rs) k ob)) fd"
    by blast
  have m: "map_of (type_fields t) k = map_option (build_field_info (length rs) k) (map_of fd k)"
    by (simp add: f map_of_map_keyed)
  have v: "values_in fd k = field_values k rs" and h: "types_in fd k = field_hints k rs"
    using collect_field_data_values [OF c] by simp_all
  have ne: "obs_values ob \<noteq> []" if "map_of fd k = Some ob" for ob
    using that w by (auto simp: well_observed_def dest: map_of_SomeD)
  show "map_of (type_fields t) k = None \<longleftrightarrow> field_values k rs = []"
    using v ne by (cases "map_of fd k") (auto simp: m values_in_def)
  show "name info = k
           \<and> dataType info = resolve_data_type k (field_values k rs) (field_hints k rs)
           \<and> (uniqueValues info, exampleValues info) = compute_value_samples (field_values k rs) (dataType info)
           \<and> fillRate info = fill_rate (length (field_values k rs)) (length rs)
           \<and> access info = compute_access_paths k (isCustomField info) (dataType info)"
    if "map_of (type_fields t) k = Some info"
  proof -
    from that m obtain ob where ob: "map_of fd k = Some ob" and i: "info = build_field_info (length rs) k ob"
      by (cases "map_of fd k") auto
    have "obs_values ob = field_values k rs" and "obs_types ob = field_hints k rs"
      using v h ob by (simp_all add: values_in_def types_in_def)
    then show ?thesis by (simp add: i build_field_info_def Let_def)
  qed
qed

section \<open>The fill rate\<close>

lemma map_of_to_dict_fillRate:
  "map_of (FieldInfo_to_dict info) ''fillRate'' =
     (if fillRate info < 100 then Some (json_str (format_0f (fillRate info) @ ''%'')) else None)"
  by (simp add: FieldInfo_to_dict_def)

lemma round_to_double_1: "round_to_double 1 = 1"
  by code_simp

lemma round_to_double_100: "round_to_double 100 = 100"
  by code_simp

lemma fill_rate_full: "0 < n \<Longrightarrow> fill_rate n n = 100"
  by (simp add: fill_rate_def round_to_double_1 round_to_double_100)

text \<open>
  The rounding of the float shows in the printed rate: 23 observations in 40 records print
  as 57, and 109 in 200 as 55, where the exact rates are 57.5 and 54.5.
\<close>

lemma format_0f_23_of_40: "format_0f (fill_rate 23 40) = ''57''"
  by code_simp

lemma format_0f_109_of_200: "format_0f (fill_rate 109 200) = ''55''"
  by code_simp

text \<open>
  C4, at two records of which the first has three field entries labelled \<^verbatim>\<open>Owner\<close> and
  the second has none. The second record is a record of the type and holds no observation
  of the field, so the field is present on one record of two. The analysis counts three
  observations in two records: the fill rate is 150, and the serialized field has no
  \<^verbatim>\<open>fillRate\<close> attribute. The claim asks for the attribute, since the field is not
  present on every record.
\<close>

theorem repeated_field_omits_fill_rate:
  "pump_record \<in> set repeated_field_records
   \<and> record_values ''Owner'' pump_record = []
   \<and> map_option fillRate (inferred_field repeated_field_records ''Part'' ''Owner'') = Some 150
   \<and> serialized_attribute repeated_field_records ''Part'' ''Owner'' ''fillRate'' = Some None"
  by code_simp

section \<open>Values that are false or zero\<close>

text \<open>
  C9, at one record with the field entries \<^verbatim>\<open>Count\<close> = 0, \<^verbatim>\<open>Active\<close> = false and
  \<^verbatim>\<open>Site\<close> = "Lab". The field analysis observes all three (each has a value domain and
  the fill rate 100), but the sample record holds the title and \<^verbatim>\<open>Site\<close> only: the
  sample builder tests \<^verbatim>\<open>label and value and value != ""\<close>, which is false for 0 and for
  false.
\<close>

theorem falsy_values_dropped_from_samples:
  "map_option uniqueValues (inferred_field zero_value_records ''Device'' ''Count'') = Some [''0'']
   \<and> map_option fillRate (inferred_field zero_value_records ''Device'' ''Count'') = Some 100
   \<and> map_option uniqueValues (inferred_field zero_value_records ''Device'' ''Active'') = Some [''False'']
   \<and> map_option fillRate (inferred_field zero_value_records ''Device'' ''Active'') = Some 100
   \<and> sample_records_of zero_value_records ''Device'' = Some [[(''title'', ''Sensor''), (''Site'', ''Lab'')]]"
  by code_simp

section \<open>The statuses\<close>

lemma observe_status_add:
  "observe_status f sts = fold add_status (status_entry_values [f]) sts"
  by (cases f) (simp_all add: observe_status_def status_entry_values_def add_status_def get_or_is_str Let_def)

lemma status_entry_values_Cons:
  "status_entry_values (f # fs) = status_entry_values [f] @ status_entry_values fs"
  by (simp add: status_entry_values_def)

lemma fold_observe_status:
  "fold observe_status fs sts = fold add_status (status_entry_values fs) sts"
proof (induction fs arbitrary: sts)
  case Nil
  then show ?case by (simp add: status_entry_values_def)
next
  case (Cons f fs)
  have "fold observe_status (f # fs) sts = fold observe_status fs (observe_status f sts)"
    by simp
  also have "\<dots> = fold add_status (status_entry_values fs) (observe_status f sts)"
    by (rule Cons.IH)
  also have "\<dots> = fold add_status (status_entry_values fs) (fold add_status (status_entry_values [f]) sts)"
    by (simp only: observe_status_add)
  also have "\<dots> = fold add_status (status_entry_values (f # fs)) sts"
    by (simp add: status_entry_values_Cons [of f fs])
  finally show ?case .
qed

lemma normalize_is_Status: "normalize_field_name s = ''Status'' \<longleftrightarrow> s = ''Status''"
proof
  assume "normalize_field_name s = ''Status''"
  then have "map (\<lambda>c. if c = CHR '' '' then CHR ''_'' else c) s = ''Status''"
    by (simp add: normalize_field_name_def str_replace_def)
  then show "s = ''Status''"
    by (auto simp: map_eq_Cons_conv split: if_splits)
next
  assume "s = ''Status''"
  then show "normalize_field_name s = ''Status''"
    by (simp add: normalize_field_name_def str_replace_def)
qed

lemma observed_as_Status:
  "observed_as ''Status'' d
     \<longleftrightarrow> map_of d ''label'' = Some (PStr ''Status'') \<and> present (get_or d ''value'' PNone)"
proof (cases "get_or d ''label'' (PStr [])")
  case (PStr s)
  have "map_of d ''label'' = Some (PStr ''Status'') \<longleftrightarrow> s = ''Status''"
    using PStr by (auto simp: get_or_def split: option.splits)
  then show ?thesis using PStr by (auto simp: observed_as_def normalize_is_Status)
qed (auto simp: observed_as_def get_or_def split: option.splits)

lemma custom_values_Status:
  "custom_values ''Status'' fs = filter present (status_entry_values fs)"
proof (induction fs)
  case Nil
  then show ?case by (simp add: custom_values_def status_entry_values_def)
next
  case (Cons f fs)
  have "custom_values ''Status'' [f] = filter present (status_entry_values [f])"
    by (cases f) (simp_all add: custom_values_def status_entry_values_def observed_as_Status)
  then show ?case
    using Cons.IH by (simp add: custom_values_Cons [of _ f fs] status_entry_values_Cons [of f fs])
qed

lemma standard_values_Status: "standard_values ''Status'' attrs = []"
  by (simp add: standard_values_def standard_fields_def)

lemma record_values_Status:
  "record_values ''Status'' (RawRecord attrs fs rels) = filter present (status_entry_values fs)"
  by (simp add: record_values_def standard_values_Status custom_values_Status)

lemma status_not_rich:
  "is_rich_text_field ''Status'' [PStr ''Open'', PStr ''Open'', PStr ''Closed''] = False"
  by code_simp

lemma status_samples:
  "data_type \<noteq> ''richText'' \<Longrightarrow>
     compute_value_samples [PStr ''Open'', PStr ''Open'', PStr ''Closed''] data_type
       = ([''Closed'', ''Open''], [])"
  by (simp add: compute_value_samples_def dict_fromkeys_def py_sorted_def MAX_UNIQUE_VALUES_def
      MAX_STRING_LENGTH_def)

lemma resolve_not_rich:
  "\<not> is_rich_text_field k vs \<Longrightarrow> resolve_data_type k vs hints \<noteq> ''richText''"
  by (simp add: resolve_data_type_def)

lemma map_of_to_dict_uniqueValues:
  "map_of (FieldInfo_to_dict info) ''uniqueValues'' =
     (if uniqueValues info \<noteq> [] then Some (Array (map json_str (uniqueValues info))) else None)"
  by (simp add: FieldInfo_to_dict_def)

lemma map_of_to_dict_statuses:
  "map_of (ItemTypeInfo_to_dict t) ''statuses'' =
     (if statuses t \<noteq> [] then Some (Array (map Scalar (statuses t))) else None)"
  by (simp add: ItemTypeInfo_to_dict_def)

text \<open>
  C5. Three records of a fresh type each hold exactly one field entry labelled
  \<^verbatim>\<open>Status\<close>, with the values "Open", "Open" and "Closed"; whatever else the records
  hold, if the analysis returns, the statuses of the type are ["Closed", "Open"] (and are
  serialized so), the field \<^verbatim>\<open>Status\<close> is inferred with the enumerated values
  ["Closed", "Open"] and no example values, its fill rate is 100, and its serialized form
  has the enumerated values and no \<^verbatim>\<open>fillRate\<close> attribute.
\<close>

theorem status_scenario:
  assumes "status_entry_values fs1 = [PStr ''Open'']"
    and "status_entry_values fs2 = [PStr ''Open'']"
    and "status_entry_values fs3 = [PStr ''Closed'']"
    and "analyze_type [RawRecord a1 fs1 rels1, RawRecord a2 fs2 rels2, RawRecord a3 fs3 rels3] t0 = Inr t"
    and "type_fields t0 = []" and "statuses t0 = []"
  shows "statuses t = [PStr ''Closed'', PStr ''Open'']
       \<and> map_of (ItemTypeInfo_to_dict t) ''statuses''
           = Some (Array [Scalar (PStr ''Closed''), Scalar (PStr ''Open'')])
       \<and> (\<exists>info. map_of (type_fields t) ''Status'' = Some info
                 \<and> uniqueValues info = [''Closed'', ''Open''] \<and> exampleValues info = []
                 \<and> fillRate info = 100
                 \<and> map_of (FieldInfo_to_dict info) ''uniqueValues''
                     = Some (Array [json_str ''Closed'', json_str ''Open''])
                 \<and> map_of (FieldInfo_to_dict info) ''fillRate'' = None)"
proof -
  let ?rs = "[RawRecord a1 fs1 rels1, RawRecord a2 fs2 rels2, RawRecord a3 fs3 rels3]"
  have vs: "field_values ''Status'' ?rs = [PStr ''Open'', PStr ''Open'', PStr ''Closed'']"
    by (simp add: field_values_def record_values_Status assms(1,2,3) present_def)
  from assms(4) obtain sts where f: "fold_err status_record ?rs (statuses t0) = Inr sts"
    and s: "sorted_values sts = Inr (statuses t)"
    by (auto simp: analyze_type_def Let_def split: sum.splits)
  have "sts = [PStr ''Open'', PStr ''Closed'']"
    using f by (simp add: status_record_def fold_observe_status assms(1,2,3,6) add_status_def)
  then have st: "statuses t = [PStr ''Closed'', PStr ''Open'']"
    using s by (simp add: sorted_values_def)
  have "map_of (type_fields t) ''Status'' \<noteq> None"
    using field_inferred(1) [OF assms(4,5), of "''Status''"] vs by simp
  then obtain info where m: "map_of (type_fields t) ''Status'' = Some info" by blast
  note fi = field_inferred(2) [OF assms(4,5) m]
  have nr: "dataType info \<noteq> ''richText''"
    using fi vs status_not_rich by (simp add: resolve_not_rich)
  have "(uniqueValues info, exampleValues info)
          = compute_value_samples [PStr ''Open'', PStr ''Open'', PStr ''Closed''] (dataType info)"
    using fi vs by simp
  also have "\<dots> = ([''Closed'', ''Open''], [])"
    using nr by (rule status_samples)
  finally have u: "uniqueValues info = [''Closed'', ''Open'']" and e: "exampleValues info = []"
    by simp_all
  have r: "fillRate info = 100"
    using fi vs fill_rate_full [of 3] by (simp add: eval_nat_numeral)
  show ?thesis
    using st m u e r
    by (simp add: map_of_to_dict_statuses map_of_to_dict_uniqueValues map_of_to_dict_fillRate)
qed

theorem status_scenario_witness:
  "statuses_of requirement_records ''Requirement'' = Some [PStr ''Closed'', PStr ''Open'']
   \<and> map_option uniqueValues (inferred_field requirement_records ''Requirement'' ''Status'')
       = Some [''Closed'', ''Open'']
   \<and> map_option fillRate (inferred_field requirement_records ''Requirement'' ''Status'') = Some 100"
proof -
  let ?t = "projr (analyze_type requirement_records (new_item_type ''Requirement''))"
  have r: "requirement_records =
             [RawRecord [(''title'', PStr ''Login'')] login_fields
                [Relation (Some ''tests''), Relation (Some ''implements'')],
              RawRecord [(''title'', PStr ''Logout'')] logout_fields [],
              RawRecord [(''title'', PStr ''Audit'')] audit_fields [Relation (Some ''tests'')]]"
    by (simp add: requirement_records_def)
  have a: "analyze_type requirement_records (new_item_type ''Requirement'') = Inr ?t"
    by code_simp
  have h1: "status_entry_values login_fields = [PStr ''Open'']"
    and h2: "status_entry_values logout_fields = [PStr ''Open'']"
    and h3: "status_entry_values audit_fields = [PStr ''Closed'']"
    by code_simp+
  have h5: "type_fields (new_item_type ''Requirement'') = []"
    and h6: "statuses (new_item_type ''Requirement'') = []"
    by (simp_all add: new_item_type_def)
  from status_scenario [OF h1 h2 h3 a [unfolded r] h5 h6]
  obtain info where st: "statuses ?t = [PStr ''Closed'', PStr ''Open'']"
    and m: "map_of (type_fields ?t) ''Status'' = Some info"
    and u: "uniqueValues info = [''Closed'', ''Open'']" and f: "fillRate info = 100"
    unfolding r [symmetric] by blast
  have "statuses_of requirement_records ''Requirement'' = Some (statuses ?t)"
    by (subst statuses_of_def, subst a, simp)
  moreover have "inferred_field requirement_records ''Requirement'' ''Status'' = map_of (type_fields ?t) ''Status''"
    by (subst inferred_field_def, subst a, simp)
  ultimately show ?thesis using st m u f by simp
qed

end
